theory Spec2Isabelle
  imports Complex_Main "HOL-Library.Word" "HOL-Library.Log_Nat"
begin

unbundle bit_operations_syntax

section \<open>The SHA3-256 accumulator\<close>

text \<open>
  Modelled from the spec: the accumulator of the package \<^verbatim>\<open>js-sha3\<close>, which
  \<^verbatim>\<open>hashService.ts\<close> imports (\<^verbatim>\<open>sha3_256.create()\<close>, \<^verbatim>\<open>hasher.update(buffer)\<close>,
  \<^verbatim>\<open>hasher.hex()\<close>) and whose source is not part of the repository. The specification
  fixes it as the "mutable incremental state of a SHA3-256 computation" that "accepts
  successive byte ranges in order" and "finalizes into a fixed-length digest": the
  Keccak-f[1600] permutation on 25 lanes of 64 bits, rate 136 bytes, domain-separation
  byte 0x06, final bit 0x80, 32 bytes of output rendered as lowercase hexadecimal. As
  in the package, a byte is placed into the current block when it arrives and a block
  is absorbed as soon as it is full.
\<close>

type_synonym lane = "64 word"
type_synonym byte = "8 word"

definition RC :: "lane list" where
  "RC = [0x0000000000000001, 0x0000000000008082, 0x800000000000808A, 0x8000000080008000,
         0x000000000000808B, 0x0000000080000001, 0x8000000080008081, 0x8000000000008009,
         0x000000000000008A, 0x0000000000000088, 0x0000000080008009, 0x000000008000000A,
         0x000000008000808B, 0x800000000000008B, 0x8000000000008089, 0x8000000000008003,
         0x8000000000008002, 0x8000000000000080, 0x000000000000800A, 0x800000008000000A,
         0x8000000080008081, 0x8000000000008080, 0x0000000080000001, 0x8000000080008008]"

text \<open>Rotation offsets of the step \<open>\<rho>\<close>, for the lane at index \<open>x + 5 * y\<close>.\<close>

definition ROT :: "nat list" where
  "ROT = [0, 1, 62, 28, 27,  36, 44, 6, 55, 20,  3, 10, 43, 25, 39,
          41, 45, 15, 21, 8,  18, 2, 61, 56, 14]"

definition rotl64 :: "lane \<Rightarrow> nat \<Rightarrow> lane" where
  "rotl64 w n = push_bit n w OR drop_bit (64 - n) w"

definition theta_c :: "lane list \<Rightarrow> lane list" where
  "theta_c s = map (\<lambda>x. s ! x XOR s ! (x + 5) XOR s ! (x + 10) XOR s ! (x + 15) XOR s ! (x + 20)) [0..<5]"

definition theta_d :: "lane list \<Rightarrow> lane list" where
  "theta_d c = map (\<lambda>x. c ! ((x + 4) mod 5) XOR rotl64 (c ! ((x + 1) mod 5)) 1) [0..<5]"

definition theta_apply :: "lane list \<Rightarrow> lane list \<Rightarrow> lane list" where
  "theta_apply d s = map (\<lambda>i. s ! i XOR d ! (i mod 5)) [0..<25]"

definition theta :: "lane list \<Rightarrow> lane list" where
  "theta s = theta_apply (theta_d (theta_c s)) s"

text \<open>\<open>\<rho>\<close> and \<open>\<pi>\<close> together: the lane at \<open>(x, y)\<close>, rotated, moves to \<open>(y, 2x + 3y)\<close>.\<close>

definition rho_pi :: "lane list \<Rightarrow> lane list" where
  "rho_pi s = map (\<lambda>j. let X = j mod 5; Y = j div 5; x = (X + 3 * Y) mod 5; i = x + 5 * X
                        in rotl64 (s ! i) (ROT ! i)) [0..<25]"

definition chi :: "lane list \<Rightarrow> lane list" where
  "chi b = map (\<lambda>j. let x = j mod 5; y = j div 5
                     in b ! j XOR (NOT (b ! ((x + 1) mod 5 + 5 * y)) AND b ! ((x + 2) mod 5 + 5 * y)))
               [0..<25]"

definition iota :: "lane \<Rightarrow> lane list \<Rightarrow> lane list" where
  "iota rc s = s[0 := s ! 0 XOR rc]"

definition keccak_round :: "lane list \<Rightarrow> lane \<Rightarrow> lane list" where
  "keccak_round s rc = iota rc (chi (rho_pi (theta s)))"

definition keccak_f :: "lane list \<Rightarrow> lane list" where
  "keccak_f s = foldl keccak_round s RC"

text \<open>Bytes enter and leave a lane in little-endian order.\<close>

definition lane_of_bytes :: "byte list \<Rightarrow> lane" where
  "lane_of_bytes bs = foldr (\<lambda>b acc. push_bit 8 acc OR ucast b) bs 0"

definition bytes_of_lane :: "lane \<Rightarrow> byte list" where
  "bytes_of_lane w = map (\<lambda>i. ucast (drop_bit (8 * i) w)) [0..<8]"

definition byteCount :: nat where
  "byteCount = 136"

definition xor_block :: "lane list \<Rightarrow> byte list \<Rightarrow> lane list" where
  "xor_block s blk =
     map (\<lambda>i. if i < 17 then s ! i XOR lane_of_bytes (take 8 (drop (8 * i) blk)) else s ! i) [0..<25]"

definition absorb :: "lane list \<Rightarrow> byte list \<Rightarrow> lane list" where
  "absorb s blk = keccak_f (xor_block s blk)"

record keccak =
  s :: "lane list"
  block :: "byte list"

text \<open>
  Modelled from the spec: \<^verbatim>\<open>sha3_256.create()\<close>, \<^verbatim>\<open>update\<close> and \<^verbatim>\<open>hex\<close> of the package,
  absent from the repository.
\<close>

definition create :: keccak where
  "create = \<lparr>s = replicate 25 0, block = []\<rparr>"

definition update_byte :: "keccak \<Rightarrow> byte \<Rightarrow> keccak" where
  "update_byte h b =
     (let blk = block h @ [b]
      in if length blk = byteCount then \<lparr>s = absorb (s h) blk, block = []\<rparr>
         else h\<lparr>block := blk\<rparr>)"

definition update :: "keccak \<Rightarrow> byte list \<Rightarrow> keccak" where
  "update h message = foldl update_byte h message"

definition padding :: "byte list \<Rightarrow> byte list" where
  "padding blk =
     (let b = blk @ [0x06] @ replicate (byteCount - 1 - length blk) 0
      in b[byteCount - 1 := b ! (byteCount - 1) OR 0x80])"

definition finalize :: "keccak \<Rightarrow> lane list" where
  "finalize h = absorb (s h) (padding (block h))"

definition digest :: "keccak \<Rightarrow> byte list" where
  "digest h = take 32 (concat (map bytes_of_lane (finalize h)))"

definition hexdigit :: "nat \<Rightarrow> char" where
  "hexdigit n = ''0123456789abcdef'' ! n"

definition hex_of_byte :: "byte \<Rightarrow> string" where
  "hex_of_byte b = [hexdigit (unat b div 16), hexdigit (unat b mod 16)]"

definition hex :: "keccak \<Rightarrow> string" where
  "hex h = concat (map hex_of_byte (digest h))"


section \<open>JavaScript numbers\<close>

text \<open>
  A JavaScript \<^verbatim>\<open>number\<close> is an IEEE 754 double. The values that occur in the
  repository are non-negative: a finite double is modelled by the rational it denotes,
  next to \<^verbatim>\<open>Infinity\<close> and \<^verbatim>\<open>NaN\<close>. \<open>fl\<close> rounds a rational to the nearest
  double, ties to the even significand of 53 bits. File sizes and offsets are integers
  below \<open>2 ^ 53\<close>, which doubles hold exactly; overflow and subnormal results are out
  of reach of the values computed here and are not modelled.
\<close>

datatype js_number = Num rat | PosInfinity | NaN

definition pow2 :: "int \<Rightarrow> rat" where
  "pow2 e = (if 0 \<le> e then 2 ^ nat e else 1 / 2 ^ nat (- e))"

definition ilog2 :: "rat \<Rightarrow> int" where
  "ilog2 x = (let (a, b) = quotient_of x; d = bitlen a - bitlen b
              in if pow2 d \<le> x then d else d - 1)"

definition round_half_even :: "rat \<Rightarrow> int" where
  "round_half_even m =
     (let f = \<lfloor>m\<rfloor>; r = m - of_int f
      in if r < 1 / 2 then f else if 1 / 2 < r then f + 1 else if even f then f else f + 1)"

definition fl_pos :: "rat \<Rightarrow> rat" where
  "fl_pos x = (let u = pow2 (ilog2 x - 52) in of_int (round_half_even (x / u)) * u)"

definition fl :: "rat \<Rightarrow> rat" where
  "fl x = (if x = 0 then 0 else if 0 < x then fl_pos x else - fl_pos (- x))"

text \<open>\<^verbatim>\<open>a / b\<close> for two non-negative integers held as numbers.\<close>

definition js_div :: "nat \<Rightarrow> nat \<Rightarrow> js_number" where
  "js_div a b =
     (if b = 0 then (if a = 0 then NaN else PosInfinity)
      else Num (fl (of_nat a / of_nat b)))"

text \<open>\<^verbatim>\<open>x * c\<close> for a positive finite constant \<open>c\<close>.\<close>

definition js_times :: "js_number \<Rightarrow> rat \<Rightarrow> js_number" where
  "js_times x c = (case x of Num r \<Rightarrow> Num (fl (r * c)) | PosInfinity \<Rightarrow> PosInfinity | NaN \<Rightarrow> NaN)"

text \<open>\<^verbatim>\<open>Math.round\<close>: the nearest integer, a tie going up.\<close>

definition Math_round :: "js_number \<Rightarrow> js_number" where
  "Math_round x = (case x of Num r \<Rightarrow> Num (of_int \<lfloor>r + 1 / 2\<rfloor>) | PosInfinity \<Rightarrow> PosInfinity | NaN \<Rightarrow> NaN)"

text \<open>\<^verbatim>\<open>Math.min(c, x)\<close> for a finite constant \<open>c\<close>.\<close>

definition Math_min :: "rat \<Rightarrow> js_number \<Rightarrow> js_number" where
  "Math_min c x = (case x of Num r \<Rightarrow> Num (min c r) | PosInfinity \<Rightarrow> Num c | NaN \<Rightarrow> NaN)"

text \<open>The order \<^verbatim>\<open><=\<close> of JavaScript on these values: \<^verbatim>\<open>NaN\<close> compares with nothing.\<close>

fun js_le :: "js_number \<Rightarrow> js_number \<Rightarrow> bool" where
  "js_le (Num a) (Num b) = (a \<le> b)"
| "js_le (Num a) PosInfinity = True"
| "js_le PosInfinity PosInfinity = True"
| "js_le _ _ = False"

datatype js_error = Error string | RangeError string

fun message :: "js_error \<Rightarrow> string" where
  "message (Error m) = m"
| "message (RangeError m) = m"

section \<open>The chunked hasher (\<^verbatim>\<open>services/hashService.ts\<close>)\<close>

text \<open>
  A \<^verbatim>\<open>File\<close> is an immutable byte sequence with its metadata. Reading is the
  environment's: \<open>file_unreadable\<close> lists the byte positions that the \<^verbatim>\<open>FileReader\<close>
  cannot deliver, and reading a slice fires \<^verbatim>\<open>onerror\<close> exactly when the slice holds
  one of them, \<^verbatim>\<open>onload\<close> with the bytes of the slice otherwise.
\<close>

record File =
  file_name :: string
  file_type :: string
  file_lastModified :: int
  file_bytes :: "byte list"
  file_unreadable :: "nat list"

definition file_size :: "File \<Rightarrow> nat" where
  "file_size f = length (file_bytes f)"

text \<open>\<^verbatim>\<open>file.slice(start, end)\<close>: both ends are clamped to the size of the file.\<close>

definition blob_slice :: "File \<Rightarrow> nat \<Rightarrow> nat \<Rightarrow> byte list" where
  "blob_slice f start end' = take (end' - start) (drop start (file_bytes f))"

definition readAsArrayBuffer :: "File \<Rightarrow> nat \<Rightarrow> nat \<Rightarrow> byte list option" where
  "readAsArrayBuffer f start end' =
     (if \<exists>p \<in> set (file_unreadable f). start \<le> p \<and> p < min end' (file_size f) then None
      else Some (blob_slice f start end'))"

text \<open>
  What \<^verbatim>\<open>m.sha3_256 || m.default?.sha3_256 || (typeof m === 'function' ? m : null)\<close>
  finds in the imported module: nothing, an object without a \<^verbatim>\<open>create\<close> function, or
  the hash object.
\<close>

datatype sha3_lookup = Null | WithoutCreate | WithCreate

definition chunkSize :: nat where
  "chunkSize = 1024 * 1024"

record reader_state =
  hasher :: keccak
  offset :: nat

text \<open>\<^verbatim>\<open>Math.min(100, Math.round((offset / file.size) * 100))\<close>\<close>

definition progress_of :: "nat \<Rightarrow> nat \<Rightarrow> js_number" where
  "progress_of off size' = Math_min 100 (Math_round (js_times (js_div off size') 100))"

text \<open>
  The first statements of the handler \<^verbatim>\<open>reader.onload\<close>:
  \<^verbatim>\<open>hasher.update(result); offset += chunkSize\<close>.
\<close>

definition onload :: "reader_state \<Rightarrow> byte list \<Rightarrow> reader_state" where
  "onload st result = \<lparr>hasher = update (hasher st) result, offset = offset st + chunkSize\<rparr>"

text \<open>\<^verbatim>\<open>if (onProgress) onProgress(progress)\<close>; the callback acts on the caller's state.\<close>

definition notify :: "(js_number \<Rightarrow> 's \<Rightarrow> 's) option \<Rightarrow> js_number \<Rightarrow> 's \<Rightarrow> 's" where
  "notify onProgress progress ui = (case onProgress of None \<Rightarrow> ui | Some cb \<Rightarrow> cb progress ui)"

text \<open>
  \<^verbatim>\<open>readNextChunk\<close> with the handlers \<^verbatim>\<open>onload\<close> and \<^verbatim>\<open>onerror\<close> it arms. The result of
  a load is an \<^verbatim>\<open>ArrayBuffer\<close>, an object and so truthy also when it is empty: the guard
  \<^verbatim>\<open>if (event.target?.result)\<close> always passes. The function returns the reader's last
  state, the caller's state and how the promise settles: \<open>Inl\<close> for \<^verbatim>\<open>reject\<close>,
  \<open>Inr\<close> for \<^verbatim>\<open>resolve\<close>.
\<close>

function readNextChunk ::
  "File \<Rightarrow> (js_number \<Rightarrow> 's \<Rightarrow> 's) option \<Rightarrow> reader_state \<Rightarrow> 's
     \<Rightarrow> reader_state \<times> 's \<times> (js_error + string)" where
  "readNextChunk f onProgress st ui =
     (case readAsArrayBuffer f (offset st) (offset st + chunkSize) of
        None \<Rightarrow> (st, ui, Inl (Error ''Error reading file.''))
      | Some result \<Rightarrow>
          (let st' = onload st result;
               progress = progress_of (offset st') (file_size f);
               ui' = notify onProgress progress ui
           in if offset st' < file_size f then readNextChunk f onProgress st' ui'
              else (st', ui', Inr (hex (hasher st')))))"
  by pat_completeness auto
termination
  by (relation "measure (\<lambda>(f, onProgress, st, ui). file_size f - offset st)")
     (auto simp: chunkSize_def onload_def)

definition calculateSHA3_256 ::
  "sha3_lookup \<Rightarrow> File \<Rightarrow> (js_number \<Rightarrow> 's \<Rightarrow> 's) option \<Rightarrow> 's \<Rightarrow> 's \<times> (js_error + string)" where
  "calculateSHA3_256 sha3_256 f onProgress ui =
     (case sha3_256 of
        WithCreate \<Rightarrow> snd (readNextChunk f onProgress \<lparr>hasher = create, offset = 0\<rparr> ui)
      | _ \<Rightarrow> (ui, Inl (Error ''SHA3-256 implementation not found in the loaded module.'')))"


section \<open>The size formatter (\<^verbatim>\<open>formatBytes\<close>)\<close>

text \<open>
  \<^verbatim>\<open>x.toFixed(f)\<close> renders the integer \<open>n\<close> for which \<open>n / 10 ^ f\<close> is nearest to \<open>x\<close>,
  the larger one at a tie, with \<open>f\<close> digits after the point; \<^verbatim>\<open>parseFloat\<close> reads the
  string back as the nearest double. \<open>toFixed_value\<close> is the decimal that the string
  denotes.
\<close>

definition toFixed_value :: "rat \<Rightarrow> nat \<Rightarrow> rat" where
  "toFixed_value x f = of_int \<lfloor>x * 10 ^ f + 1 / 2\<rfloor> / 10 ^ f"

definition parseFloat_toFixed :: "js_number \<Rightarrow> nat \<Rightarrow> js_number" where
  "parseFloat_toFixed x f = (case x of Num r \<Rightarrow> Num (fl (toFixed_value r f)) | PosInfinity \<Rightarrow> PosInfinity | NaN \<Rightarrow> NaN)"

text \<open>
  The conversion of a number to a string, which \<^verbatim>\<open>+ ' '\<close> applies: the decimal with the
  fewest digits that reads back as the same double (of two such, the nearer one), in
  positional notation. JavaScript switches to exponent notation below \<open>10 ^ -6\<close> and
  from \<open>10 ^ 21\<close> on; \<^verbatim>\<open>formatBytes\<close> renders values between 1 and 1024 only.
\<close>

definition pow10 :: "int \<Rightarrow> rat" where
  "pow10 e = (if 0 \<le> e then 10 ^ nat e else 1 / 10 ^ nat (- e))"

definition ilog10 :: "rat \<Rightarrow> int" where
  "ilog10 x = (let (a, b) = quotient_of x; d = int (floorlog 10 (nat a)) - int (floorlog 10 (nat b))
               in if pow10 d \<le> x then d else d - 1)"

definition candidates :: "rat \<Rightarrow> int \<Rightarrow> nat \<Rightarrow> rat list" where
  "candidates v n k =
     (let u = pow10 (n - int k); lo = of_int \<lfloor>v / u\<rfloor> * u; hi = lo + u;
          near = (if v - lo \<le> hi - v then [lo, hi] else [hi, lo])
      in filter (\<lambda>w. fl w = v) near)"

fun shortest_search :: "rat \<Rightarrow> int \<Rightarrow> nat \<Rightarrow> nat \<Rightarrow> rat" where
  "shortest_search v n k 0 = v"
| "shortest_search v n k (Suc fuel) =
     (case candidates v n k of w # ws \<Rightarrow> w | [] \<Rightarrow> shortest_search v n (Suc k) fuel)"

text \<open>A double is determined by 17 significant digits; the search stops at the latest there.\<close>

definition shortest_decimal :: "rat \<Rightarrow> rat" where
  "shortest_decimal v = shortest_search v (ilog10 v + 1) 1 21"

definition digit_char :: "nat \<Rightarrow> char" where
  "digit_char d = ''0123456789'' ! d"

fun digits_of_nat :: "nat \<Rightarrow> string" where
  "digits_of_nat n = (if n < 10 then [digit_char n] else digits_of_nat (n div 10) @ [digit_char (n mod 10)])"

fun frac_digits :: "nat \<Rightarrow> rat \<Rightarrow> string" where
  "frac_digits 0 r = []"
| "frac_digits (Suc n) r =
     (if r = 0 then []
      else (let d = nat \<lfloor>r * 10\<rfloor> in digit_char d # frac_digits n (r * 10 - of_nat d)))"

definition render_decimal :: "rat \<Rightarrow> string" where
  "render_decimal w =
     (let ip = nat \<lfloor>w\<rfloor>; fr = w - of_nat ip
      in digits_of_nat ip @ (if fr = 0 then [] else ''.'' @ frac_digits 40 fr))"

definition js_toString :: "js_number \<Rightarrow> string" where
  "js_toString x =
     (case x of Num v \<Rightarrow> (if v = 0 then ''0'' else render_decimal (shortest_decimal v))
      | PosInfinity \<Rightarrow> ''Infinity'' | NaN \<Rightarrow> ''NaN'')"

text \<open>
  \<^verbatim>\<open>formatBytes(bytes, decimals = 2)\<close> for the size of a file, a non-negative integer.
  \<^verbatim>\<open>Math.floor(Math.log(bytes) / Math.log(k))\<close> is taken at its mathematical value,
  \<open>\<lfloor>log\<^bsub>1024\<^esub> bytes\<rfloor>\<close>. \<^verbatim>\<open>toFixed\<close> throws a \<^verbatim>\<open>RangeError\<close> for more than 100 digits,
  and \<^verbatim>\<open>sizes[i]\<close> beyond the array is \<^verbatim>\<open>undefined\<close>, which \<^verbatim>\<open>+\<close> renders as such.
\<close>

definition sizes :: "string list" where
  "sizes = [''Bytes'', ''KB'', ''MB'', ''GB'', ''TB'']"

definition formatBytes :: "nat \<Rightarrow> int \<Rightarrow> js_error + string" where
  "formatBytes bytes decimals =
     (if bytes = 0 then Inr ''0 Bytes''
      else
        (let k = 1024;
             dm = (if decimals < 0 then 0 else decimals);
             i = floorlog k bytes - 1
         in if 100 < dm then Inl (RangeError ''toFixed() digits argument must be between 0 and 100'')
            else Inr (js_toString (parseFloat_toFixed (js_div bytes (k ^ i)) (nat dm)) @ '' '' @
                      (if i < length sizes then sizes ! i else ''undefined''))))"

section \<open>The metadata summarizer (\<^verbatim>\<open>services/geminiService.ts\<close>)\<close>

text \<open>
  The call to the generative-AI service is the environment's: it throws (no network,
  no quota, a malformed response, a missing key) or answers with a response whose
  \<^verbatim>\<open>text\<close> may be undefined.
\<close>

datatype gemini_outcome = Throws js_error | Responds "string option"

type_synonym gemini = "string \<Rightarrow> string \<Rightarrow> string \<Rightarrow> string \<Rightarrow> gemini_outcome"

text \<open>The body of the \<^verbatim>\<open>try\<close> block; \<^verbatim>\<open>response.text || "AI Analysis unavailable."\<close>\<close>

definition generateContent :: "gemini \<Rightarrow> string \<Rightarrow> string \<Rightarrow> string \<Rightarrow> string \<Rightarrow> js_error + string" where
  "generateContent ai fileName fileSize fileType hash =
     (case ai fileName fileSize fileType hash of
        Throws e \<Rightarrow> Inl e
      | Responds t \<Rightarrow>
          Inr (case t of None \<Rightarrow> ''AI Analysis unavailable.''
               | Some txt \<Rightarrow> if txt = [] then ''AI Analysis unavailable.'' else txt))"

definition analyzeFileMetadata :: "gemini \<Rightarrow> string \<Rightarrow> string \<Rightarrow> string \<Rightarrow> string \<Rightarrow> js_error + string" where
  "analyzeFileMetadata ai fileName fileSize fileType hash =
     (case generateContent ai fileName fileSize fileType hash of
        Inl error \<Rightarrow> Inr ''Could not perform AI analysis at this time.''
      | Inr text \<Rightarrow> Inr text)"

section \<open>The application state (\<^verbatim>\<open>App.tsx\<close>)\<close>

datatype HashStatus = IDLE | PROCESSING | COMPLETED | ERROR

text \<open>The interface \<^verbatim>\<open>FileResult\<close>; its fields carry the prefix \<open>r_\<close> here.\<close>

record FileResult =
  r_id :: string
  r_name :: string
  r_size :: nat
  r_type :: string
  r_lastModified :: int
  r_hash :: string
  r_timestamp :: int
  r_aiAnalysis :: "string option"

record app_state =
  results :: "FileResult list"
  status :: HashStatus
  progress :: js_number
  isDragging :: bool
  copiedId :: "string option"
  errorMsg :: "string option"

text \<open>
  What \<^verbatim>\<open>processFile\<close> takes from the browser: the imported hash module, the AI
  service, the identifier drawn with \<^verbatim>\<open>Math.random\<close> and the clock \<^verbatim>\<open>Date.now()\<close>.
\<close>

record environment =
  sha3_256 :: sha3_lookup
  genai :: gemini
  random_id :: string
  now :: int

text \<open>The \<^verbatim>\<open>catch (err)\<close> block of \<^verbatim>\<open>processFile\<close>.\<close>

definition catch_err :: "js_error \<Rightarrow> app_state \<Rightarrow> app_state" where
  "catch_err err st =
     st\<lparr>errorMsg := Some (if message err = [] then ''Failed to process file.'' else message err),
        status := ERROR\<rparr>"

text \<open>\<^verbatim>\<open>setProgress\<close>, the setter of the state variable \<open>progress\<close>.\<close>

definition setProgress :: "js_number \<Rightarrow> app_state \<Rightarrow> app_state" where
  "setProgress p st = st\<lparr>progress := p\<rparr>"

text \<open>\<^verbatim>\<open>file.type || 'unknown'\<close>\<close>

definition unknown_type :: "string \<Rightarrow> string" where
  "unknown_type t = (if t = [] then ''unknown'' else t)"

definition processFile :: "environment \<Rightarrow> File \<Rightarrow> app_state \<Rightarrow> app_state" where
  "processFile env f st =
     (let st1 = setProgress (Num 0) (st\<lparr>errorMsg := None, status := PROCESSING\<rparr>);
          (st2, settled) = calculateSHA3_256 (sha3_256 env) f (Some setProgress) st1;
          st3 =
            (case settled of
               Inl err \<Rightarrow> catch_err err st2
             | Inr hash \<Rightarrow>
                 (case formatBytes (file_size f) 2 of
                    Inl err \<Rightarrow> catch_err err st2
                  | Inr fileSize \<Rightarrow>
                      (let aiAnalysis =
                             (case analyzeFileMetadata (genai env) (file_name f) fileSize
                                     (unknown_type (file_type f)) hash of
                                Inl aiErr \<Rightarrow> ''Unable to generate AI security context for this file.''
                              | Inr a \<Rightarrow> a);
                           newResult =
                             \<lparr>r_id = random_id env, r_name = file_name f, r_size = file_size f,
                              r_type = unknown_type (file_type f),
                              r_lastModified = file_lastModified f, r_hash = hash,
                              r_timestamp = now env, r_aiAnalysis = Some aiAnalysis\<rparr>
                       in st2\<lparr>results := newResult # results st2, status := COMPLETED\<rparr>)))
      in setProgress (Num 0) st3)"

definition clearAll :: "app_state \<Rightarrow> app_state" where
  "clearAll st = st\<lparr>results := [], status := IDLE, errorMsg := None\<rparr>"


section \<open>Notions used in the statements\<close>

text \<open>A file is readable when none of its bytes is unreadable.\<close>

definition readable :: "File \<Rightarrow> bool" where
  "readable f = (\<forall>p \<in> set (file_unreadable f). file_size f \<le> p)"

text \<open>
  The number of chunks that the loop consumes when \<open>n\<close> bytes are left, and the offsets
  it holds after each of them.
\<close>

definition chunk_count :: "nat \<Rightarrow> nat" where
  "chunk_count n = max 1 ((n + chunkSize - 1) div chunkSize)"

definition offsets :: "nat \<Rightarrow> nat \<Rightarrow> nat list" where
  "offsets off n = map (\<lambda>k. off + k * chunkSize) [1..<Suc n]"

text \<open>The values passed to \<^verbatim>\<open>onProgress\<close>, in order: the callback appends to a log.\<close>

definition progress_trace :: "File \<Rightarrow> js_number list" where
  "progress_trace f = fst (calculateSHA3_256 WithCreate f (Some (\<lambda>p log. log @ [p])) [])"

text \<open>
  The percentage that \<^verbatim>\<open>Math.round((offset / file.size) * 100)\<close>, clamped, yields for a
  file that is not empty, and the values that the loop reports when every read succeeds.
\<close>

definition percent :: "nat \<Rightarrow> nat \<Rightarrow> int" where
  "percent off size' = min 100 \<lfloor>fl (fl (of_nat off / of_nat size') * 100) + 1 / 2\<rfloor>"

definition reported :: "File \<Rightarrow> js_number list" where
  "reported f = map (\<lambda>off. progress_of off (file_size f)) (offsets 0 (chunk_count (file_size f)))"

text \<open>
  The progress value in the words of the specification: "floor(offset / fileSize * 100)"
  clamped to 100.
\<close>

definition progress_floor_spec :: "nat \<Rightarrow> nat \<Rightarrow> int" where
  "progress_floor_spec off size' = min 100 \<lfloor>(of_nat off :: rat) / of_nat size' * 100\<rfloor>"

text \<open>Concrete files, an environment and the initial state of the application.\<close>

definition small_file :: File where
  "small_file = \<lparr>file_name = ''note.txt'', file_type = ''text/plain'', file_lastModified = 0,
                  file_bytes = [0x61, 0x62, 0x63], file_unreadable = []\<rparr>"

definition empty_file :: File where
  "empty_file = \<lparr>file_name = ''empty.bin'', file_type = [], file_lastModified = 0,
                  file_bytes = [], file_unreadable = []\<rparr>"

definition damaged_file :: File where
  "damaged_file = \<lparr>file_name = ''note.txt'', file_type = ''text/plain'', file_lastModified = 0,
                    file_bytes = [0x61, 0x62, 0x63], file_unreadable = [1]\<rparr>"

definition big_file :: File where
  "big_file = \<lparr>file_name = ''big.bin'', file_type = [], file_lastModified = 0,
                file_bytes = replicate (3 * chunkSize) 0, file_unreadable = []\<rparr>"

definition torn_file :: File where
  "torn_file = \<lparr>file_name = ''big.bin'', file_type = [], file_lastModified = 0,
                 file_bytes = replicate (3 * chunkSize) 0, file_unreadable = [2 * chunkSize]\<rparr>"

definition offline :: environment where
  "offline = \<lparr>sha3_256 = WithCreate, genai = (\<lambda>fileName fileSize fileType hash. Throws (Error ''fetch failed'')),
               random_id = ''k3j9x2q1z'', now = 0\<rparr>"

definition initial_state :: app_state where
  "initial_state = \<lparr>results = [], status = IDLE, progress = Num 0, isDragging = False,
                     copiedId = None, errorMsg = None\<rparr>"

section \<open>Evaluating the permutation\<close>

text \<open>
  The steps of a round on a state written out lane by lane, and the rewrite rules that
  compute with lanes given as numerals.
\<close>

lemma upt5: "[0..<5] = [0,1,2,3,4]" by (simp add: upt_rec)
lemma upt8: "[0..<8] = [0,1,2,3,4,5,6,7]" by (simp add: upt_rec)
lemma upt25: "[0..<25] = [0,1,2,3,4,5,6,7,8,9,10,11,12,13,14,15,16,17,18,19,20,21,22,23,24]"
  by (simp add: upt_rec)

lemma not_and_xor: "NOT x AND y = (x AND y) XOR y" for x y :: lane
  by (rule bit_eqI) (auto simp: bit_simps)

lemma theta_c_explicit:
  "theta_c [a0,a1,a2,a3,a4,a5,a6,a7,a8,a9,a10,a11,a12,a13,a14,a15,a16,a17,a18,a19,a20,a21,a22,a23,a24] =
   [a0 XOR a5 XOR a10 XOR a15 XOR a20, a1 XOR a6 XOR a11 XOR a16 XOR a21,
    a2 XOR a7 XOR a12 XOR a17 XOR a22, a3 XOR a8 XOR a13 XOR a18 XOR a23,
    a4 XOR a9 XOR a14 XOR a19 XOR a24]"
  by (simp add: theta_c_def upt5)

lemma theta_d_explicit:
  "theta_d [c0,c1,c2,c3,c4] =
   [c4 XOR rotl64 c1 1, c0 XOR rotl64 c2 1, c1 XOR rotl64 c3 1, c2 XOR rotl64 c4 1, c3 XOR rotl64 c0 1]"
  by (simp add: theta_d_def upt5)

lemma theta_apply_explicit:
  "theta_apply [d0,d1,d2,d3,d4]
     [a0,a1,a2,a3,a4,a5,a6,a7,a8,a9,a10,a11,a12,a13,a14,a15,a16,a17,a18,a19,a20,a21,a22,a23,a24] =
   [a0 XOR d0, a1 XOR d1, a2 XOR d2, a3 XOR d3, a4 XOR d4,
    a5 XOR d0, a6 XOR d1, a7 XOR d2, a8 XOR d3, a9 XOR d4,
    a10 XOR d0, a11 XOR d1, a12 XOR d2, a13 XOR d3, a14 XOR d4,
    a15 XOR d0, a16 XOR d1, a17 XOR d2, a18 XOR d3, a19 XOR d4,
    a20 XOR d0, a21 XOR d1, a22 XOR d2, a23 XOR d3, a24 XOR d4]"
  by (simp add: theta_apply_def upt25)

lemma rho_pi_explicit:
  "rho_pi [a0,a1,a2,a3,a4,a5,a6,a7,a8,a9,a10,a11,a12,a13,a14,a15,a16,a17,a18,a19,a20,a21,a22,a23,a24] =
   [rotl64 a0 0, rotl64 a6 44, rotl64 a12 43, rotl64 a18 21, rotl64 a24 14,
    rotl64 a3 28, rotl64 a9 20, rotl64 a10 3, rotl64 a16 45, rotl64 a22 61,
    rotl64 a1 1, rotl64 a7 6, rotl64 a13 25, rotl64 a19 8, rotl64 a20 18,
    rotl64 a4 27, rotl64 a5 36, rotl64 a11 10, rotl64 a17 15, rotl64 a23 56,
    rotl64 a2 62, rotl64 a8 55, rotl64 a14 39, rotl64 a15 41, rotl64 a21 2]"
  by (simp add: rho_pi_def upt25 ROT_def)

lemma chi_explicit:
  "chi [a0,a1,a2,a3,a4,a5,a6,a7,a8,a9,a10,a11,a12,a13,a14,a15,a16,a17,a18,a19,a20,a21,a22,a23,a24] =
   [a0 XOR ((a1 AND a2) XOR a2), a1 XOR ((a2 AND a3) XOR a3), a2 XOR ((a3 AND a4) XOR a4), a3 XOR ((a4 AND a0) XOR a0), a4 XOR ((a0 AND a1) XOR a1),
    a5 XOR ((a6 AND a7) XOR a7), a6 XOR ((a7 AND a8) XOR a8), a7 XOR ((a8 AND a9) XOR a9), a8 XOR ((a9 AND a5) XOR a5), a9 XOR ((a5 AND a6) XOR a6),
    a10 XOR ((a11 AND a12) XOR a12), a11 XOR ((a12 AND a13) XOR a13), a12 XOR ((a13 AND a14) XOR a14), a13 XOR ((a14 AND a10) XOR a10),
    a14 XOR ((a10 AND a11) XOR a11),
    a15 XOR ((a16 AND a17) XOR a17), a16 XOR ((a17 AND a18) XOR a18), a17 XOR ((a18 AND a19) XOR a19), a18 XOR ((a19 AND a15) XOR a15),
    a19 XOR ((a15 AND a16) XOR a16),
    a20 XOR ((a21 AND a22) XOR a22), a21 XOR ((a22 AND a23) XOR a23), a22 XOR ((a23 AND a24) XOR a24), a23 XOR ((a24 AND a20) XOR a20),
    a24 XOR ((a20 AND a21) XOR a21)]"
  by (simp add: chi_def upt25 not_and_xor)

lemma iota_explicit: "iota rc (a0 # as) = (a0 XOR rc) # as"
  by (simp add: iota_def)

lemma rotl64_word_of_int:
  "rotl64 (word_of_int i) n =
     word_of_int (push_bit n (take_bit (64 - n) i) OR take_bit n (drop_bit (64 - n) i))"
  unfolding rotl64_def
  by (rule bit_word_eqI) (auto simp: bit_simps)

lemma rotl64_numeral:
  "rotl64 (numeral k) (numeral n) =
     word_of_int (push_bit (numeral n) (take_bit (64 - numeral n) (numeral k))
                  OR take_bit (numeral n) (drop_bit (64 - numeral n) (numeral k)))"
  using rotl64_word_of_int [of "numeral k" "numeral n"] by simp

lemma rotl64_numeral_1:
  "rotl64 (numeral k) 1 =
     word_of_int (take_bit 63 (numeral k) * 2 OR take_bit 1 (drop_bit 63 (numeral k)))"
  using rotl64_word_of_int [of "numeral k" 1] by simp

lemma rotl64_zero: "rotl64 w 0 = w" "rotl64 0 n = 0"
  by (simp_all add: rotl64_def)

lemma rotl64_one:
  "rotl64 1 (numeral n) = word_of_int (push_bit (numeral n) (take_bit (64 - numeral n) 1)
                  OR take_bit (numeral n) (drop_bit (64 - numeral n) 1))"
  "rotl64 1 1 = 2"
  using rotl64_word_of_int [of 1 "numeral n"] rotl64_word_of_int [of 1 1] by simp_all

lemma renorm:
  "2 * numeral r = (numeral (Num.Bit0 r) :: int)"
  "2 * 1 = (2 :: int)"
  "2 * 0 = (0 :: int)"
  "1 + numeral (Num.Bit0 r) = (numeral (Num.Bit1 r) :: int)"
  "1 + 0 = (1 :: int)"
  "numeral r * 2 = (numeral (Num.Bit0 r) :: int)"
  "1 * 2 = (2 :: int)"
  "0 * 2 = (0 :: int)"
  "numeral (Num.Bit0 r) + 1 = (numeral (Num.Bit1 r) :: int)"
  "0 + 1 = (1 :: int)"
  by (simp_all only: numeral_Bit0 [of r] numeral_Bit1 [of r] mult_2 mult_2_right)

lemma shift_base:
  "push_bit 0 (x::int) = x" "drop_bit 0 (x::int) = x" "drop_bit (numeral l) (1::int) = 0"
  "push_bit (numeral l) (1::int) = push_bit (pred_numeral l) 2"
  "take_bit (numeral l) (1::int) = 1"
  "push_bit 1 (x::int) = x * 2"
  "drop_bit 1 (numeral (Num.Bit0 k)) = (numeral k :: int)"
  "drop_bit 1 (numeral (Num.Bit1 k)) = (numeral k :: int)"
  "drop_bit 1 (1::int) = 0"
  "take_bit 1 (numeral (Num.Bit0 k)) = (0::int)"
  "take_bit 1 (numeral (Num.Bit1 k)) = (1::int)"
  "take_bit 1 (1::int) = 1"
  by (simp_all add: numeral_eq_Suc push_bit_eq_mult)

lemmas lane_ops =
  word_no_log_defs(3,7,11) word_bitwise_1_simps(2,4,6,8,10,12)
  word_of_int_numeral word_of_int_0 word_of_int_1
  xor_numerals [where ?'a = int] and_numerals [where ?'a = int] or_numerals [where ?'a = int]
  renorm xor.right_neutral xor.left_neutral xor_self_eq and_zero_eq zero_and_eq
  or.right_neutral or.left_neutral and.idem or.idem numeral_One [where ?'a = int]

lemmas lane_shifts =
  push_bit_numeral [where ?'a = int] push_bit_of_0 shift_base
  drop_bit_numeral_bit0 [where ?'a = int] drop_bit_numeral_bit1 [where ?'a = int] drop_bit_of_0
  take_bit_numeral_bit0 [where ?'a = int] take_bit_numeral_bit1 [where ?'a = int]
  take_bit_of_0 take_bit_0
  pred_numeral_simps BitM.simps numeral_One [where ?'a = nat] nat_1
  diff_nat_numeral diff_numeral_simps nat_numeral nat_0
  Num.sub_num_simps Num.dbl_simps Num.dbl_inc_simps Num.dbl_dec_simps

lemmas keccak_eval =
  keccak_round_def theta_def theta_c_explicit theta_d_explicit theta_apply_explicit
  rho_pi_explicit chi_explicit iota_explicit
  rotl64_numeral rotl64_numeral_1 rotl64_zero rotl64_one lane_ops lane_shifts

lemma keccak_f_empty_block:
  "keccak_f [6,0,0,0,0, 0,0,0,0,0, 0,0,0,0,0, 0,0x8000000000000000,0,0,0, 0,0,0,0,0] =
   [0x66d71ebff8c6ffa7, 0x62d661a05647c151, 0xfa493be44dff80f5, 0x4a43f8804b0ad882,
    0xe2f36b34b7be6652, 0xff875921cacc9566, 0x80d97b5776b3ba89, 0x28debd55fc6a313b,
    0x3ac3d19f1e48ecc, 0x78193aecc1e434e9, 0xc287a923afe81e79, 0x21684ae301601f33,
    0x282e7e469e09e75f, 0xd17d1ed2c282b6b8, 0xf050e0d2adaf434e, 0x5375f6fb6aa989b0,
    0xc2c6b96032faf11e, 0x63684dd3f055a1b2, 0xd908398b988ec2b2, 0x913f10903e0bd326,
    0x33fc34664d479817, 0x2b715c1a078fde58, 0x140b7c9251369779, 0x857343a7aabdeb5e,
    0x92136e0efb7b70e5]"
  unfolding keccak_f_def RC_def foldl.simps
  by (simp only: keccak_eval)

lemma padding_Nil:
  "padding [] =
     [6,0,0,0,0,0,0,0,
      0,0,0,0,0,0,0,0,
      0,0,0,0,0,0,0,0,
      0,0,0,0,0,0,0,0,
      0,0,0,0,0,0,0,0,
      0,0,0,0,0,0,0,0,
      0,0,0,0,0,0,0,0,
      0,0,0,0,0,0,0,0,
      0,0,0,0,0,0,0,0,
      0,0,0,0,0,0,0,0,
      0,0,0,0,0,0,0,0,
      0,0,0,0,0,0,0,0,
      0,0,0,0,0,0,0,0,
      0,0,0,0,0,0,0,0,
      0,0,0,0,0,0,0,0,
      0,0,0,0,0,0,0,0,
      0,0,0,0,0,0,0,0x80]"
  by (simp add: padding_def byteCount_def numeral_eq_Suc)

lemma xor_block_empty:
  "xor_block (replicate 25 0) (padding []) =
     [6,0,0,0,0, 0,0,0,0,0, 0,0,0,0,0, 0,0x8000000000000000,0,0,0, 0,0,0,0,0]"
  unfolding padding_Nil
  by (simp add: xor_block_def upt25 lane_of_bytes_def)

lemma bytes_of_lane_length: "length (bytes_of_lane w) = 8"
  by (simp add: bytes_of_lane_def)

lemma digest_lanes:
  "take 32 (concat (map bytes_of_lane (a # b # c # d # rest))) =
     bytes_of_lane a @ bytes_of_lane b @ bytes_of_lane c @ bytes_of_lane d"
  by (simp add: bytes_of_lane_length)

lemma hex_lane0: "concat (map hex_of_byte (bytes_of_lane 0x66d71ebff8c6ffa7)) = ''a7ffc6f8bf1ed766''"
  by (simp add: bytes_of_lane_def upt8 hex_of_byte_def hexdigit_def)

lemma hex_lane1: "concat (map hex_of_byte (bytes_of_lane 0x62d661a05647c151)) = ''51c14756a061d662''"
  by (simp add: bytes_of_lane_def upt8 hex_of_byte_def hexdigit_def)

lemma hex_lane2: "concat (map hex_of_byte (bytes_of_lane 0xfa493be44dff80f5)) = ''f580ff4de43b49fa''"
  by (simp add: bytes_of_lane_def upt8 hex_of_byte_def hexdigit_def)

lemma hex_lane3: "concat (map hex_of_byte (bytes_of_lane 0x4a43f8804b0ad882)) = ''82d80a4b80f8434a''"
  by (simp add: bytes_of_lane_def upt8 hex_of_byte_def hexdigit_def)

lemma hex_create:
  "hex create = ''a7ffc6f8bf1ed76651c14756a061d662f580ff4de43b49fa82d80a4b80f8434a''"
proof -
  have "finalize create =
   [0x66d71ebff8c6ffa7, 0x62d661a05647c151, 0xfa493be44dff80f5, 0x4a43f8804b0ad882,
    0xe2f36b34b7be6652, 0xff875921cacc9566, 0x80d97b5776b3ba89, 0x28debd55fc6a313b,
    0x3ac3d19f1e48ecc, 0x78193aecc1e434e9, 0xc287a923afe81e79, 0x21684ae301601f33,
    0x282e7e469e09e75f, 0xd17d1ed2c282b6b8, 0xf050e0d2adaf434e, 0x5375f6fb6aa989b0,
    0xc2c6b96032faf11e, 0x63684dd3f055a1b2, 0xd908398b988ec2b2, 0x913f10903e0bd326,
    0x33fc34664d479817, 0x2b715c1a078fde58, 0x140b7c9251369779, 0x857343a7aabdeb5e,
    0x92136e0efb7b70e5]"
    by (simp only: finalize_def absorb_def create_def keccak.simps xor_block_empty keccak_f_empty_block)
  then have "digest create =
     bytes_of_lane 0x66d71ebff8c6ffa7 @ bytes_of_lane 0x62d661a05647c151 @
     bytes_of_lane 0xfa493be44dff80f5 @ bytes_of_lane 0x4a43f8804b0ad882"
    by (simp only: digest_def digest_lanes)
  then have "hex create =
     concat (map hex_of_byte (bytes_of_lane 0x66d71ebff8c6ffa7)) @
     concat (map hex_of_byte (bytes_of_lane 0x62d661a05647c151)) @
     concat (map hex_of_byte (bytes_of_lane 0xfa493be44dff80f5)) @
     concat (map hex_of_byte (bytes_of_lane 0x4a43f8804b0ad882))"
    by (simp only: hex_def map_append concat_append)
  then show ?thesis
    by (simp only: hex_lane0 hex_lane1 hex_lane2 hex_lane3) simp
qed

section \<open>The reading loop\<close>

declare readNextChunk.simps [simp del]

lemma readNextChunk_error:
  "readAsArrayBuffer f (offset st) (offset st + chunkSize) = None \<Longrightarrow>
   readNextChunk f cb st ui = (st, ui, Inl (Error ''Error reading file.''))"
  by (subst readNextChunk.simps) simp

lemma readNextChunk_more:
  "readAsArrayBuffer f (offset st) (offset st + chunkSize) = Some r \<Longrightarrow>
   offset st + chunkSize < file_size f \<Longrightarrow>
   readNextChunk f cb st ui =
     readNextChunk f cb (onload st r) (notify cb (progress_of (offset st + chunkSize) (file_size f)) ui)"
  by (subst readNextChunk.simps) (simp add: Let_def onload_def)

lemma readNextChunk_last:
  "readAsArrayBuffer f (offset st) (offset st + chunkSize) = Some r \<Longrightarrow>
   \<not> offset st + chunkSize < file_size f \<Longrightarrow>
   readNextChunk f cb st ui =
     (onload st r, notify cb (progress_of (offset st + chunkSize) (file_size f)) ui,
      Inr (hex (hasher (onload st r))))"
  by (subst readNextChunk.simps) (simp add: Let_def onload_def)

lemma readNextChunk_observer:
  "fst (readNextChunk f cb st ui) = fst (readNextChunk f cb' st ui') \<and>
   snd (snd (readNextChunk f cb st ui)) = snd (snd (readNextChunk f cb' st ui'))"
proof (induction "file_size f - offset st" arbitrary: st ui ui' rule: less_induct)
  case less
  show ?case
  proof (cases "readAsArrayBuffer f (offset st) (offset st + chunkSize)")
    case None
    then show ?thesis by (simp add: readNextChunk_error)
  next
    case (Some r)
    show ?thesis
    proof (cases "offset st + chunkSize < file_size f")
      case True
      have "file_size f - offset (onload st r) < file_size f - offset st"
        using True by (simp add: onload_def chunkSize_def)
      from less [OF this] show ?thesis
        by (simp add: readNextChunk_more [OF Some True])
    next
      case False
      then show ?thesis by (simp add: readNextChunk_last [OF Some False])
    qed
  qed
qed

lemma chunkSize_pos: "0 < chunkSize" by (simp add: chunkSize_def)

lemma readAsArrayBuffer_readable:
  "readable f \<Longrightarrow> readAsArrayBuffer f a b = Some (blob_slice f a b)"
  by (auto simp: readable_def readAsArrayBuffer_def)

lemma update_append: "update h (a @ b) = update (update h a) b"
  by (simp add: update_def)

lemma update_Nil: "update h [] = h"
  by (simp add: update_def)

lemma blob_slice_append_drop:
  "blob_slice f off (off + n) @ drop (off + n) (file_bytes f) = drop off (file_bytes f)"
proof -
  have "take n (drop off (file_bytes f)) @ drop n (drop off (file_bytes f)) = drop off (file_bytes f)"
    by (rule append_take_drop_id)
  then show ?thesis by (simp add: blob_slice_def add.commute)
qed

lemma blob_slice_last:
  "\<not> off + n < file_size f \<Longrightarrow> blob_slice f off (off + n) = drop off (file_bytes f)"
  by (simp add: blob_slice_def file_size_def)

lemma chunk_count_more:
  assumes "off + chunkSize < size'"
  shows "chunk_count (size' - off) = Suc (chunk_count (size' - (off + chunkSize)))"
proof -
  define r where "r = size' - (off + chunkSize)"
  have r: "size' - off = r + chunkSize" and pos: "0 < r" using assms by (simp_all add: r_def)
  have "r + chunkSize + chunkSize - 1 = (r + chunkSize - 1) + chunkSize"
    using pos by simp
  moreover have "(m + chunkSize) div chunkSize = Suc (m div chunkSize)" for m
    using chunkSize_pos by simp
  ultimately have 1: "(r + chunkSize + chunkSize - 1) div chunkSize = Suc ((r + chunkSize - 1) div chunkSize)"
    by (simp only:)
  have "chunkSize div chunkSize \<le> (r + chunkSize - 1) div chunkSize"
    using pos by (intro div_le_mono) simp
  then have 2: "1 \<le> (r + chunkSize - 1) div chunkSize"
    using chunkSize_pos by simp
  show ?thesis
    unfolding chunk_count_def r r_def [symmetric] using 1 2 by simp
qed

lemma chunk_count_last:
  assumes "\<not> off + chunkSize < size'"
  shows "chunk_count (size' - off) = 1"
proof -
  have "size' - off + chunkSize - 1 < 2 * chunkSize" using assms chunkSize_pos by simp
  then have "(size' - off + chunkSize - 1) div chunkSize < 2"
    by (rule less_mult_imp_div_less)
  then show ?thesis by (simp add: chunk_count_def)
qed

lemma offsets_Suc: "offsets off (Suc n) = (off + chunkSize) # offsets (off + chunkSize) n"
proof -
  have "[1..<Suc (Suc n)] = 1 # map Suc [1..<Suc n]"
    by (simp add: upt_conv_Cons map_Suc_upt del: upt_Suc)
  then show ?thesis by (simp add: offsets_def comp_def add.assoc add.commute)
qed

lemma offsets_one: "offsets off (Suc 0) = [off + chunkSize]"
  by (simp add: offsets_def)

lemma readNextChunk_readable:
  assumes "readable f"
  shows "readNextChunk f cb st ui =
     (\<lparr>hasher = update (hasher st) (drop (offset st) (file_bytes f)),
       offset = offset st + chunk_count (file_size f - offset st) * chunkSize\<rparr>,
      foldl (\<lambda>u off. notify cb (progress_of off (file_size f)) u) ui
        (offsets (offset st) (chunk_count (file_size f - offset st))),
      Inr (hex (update (hasher st) (drop (offset st) (file_bytes f)))))"
proof (induction "file_size f - offset st" arbitrary: st ui rule: less_induct)
  case less
  let ?r = "blob_slice f (offset st) (offset st + chunkSize)"
  have rd: "readAsArrayBuffer f (offset st) (offset st + chunkSize) = Some ?r"
    using assms by (rule readAsArrayBuffer_readable)
  show ?case
  proof (cases "offset st + chunkSize < file_size f")
    case True
    have "file_size f - offset (onload st ?r) < file_size f - offset st"
      using True by (simp add: onload_def chunkSize_def)
    note IH = less [OF this]
    have h: "update (update (hasher st) ?r) (drop (offset st + chunkSize) (file_bytes f)) =
             update (hasher st) (drop (offset st) (file_bytes f))"
      by (simp add: update_append [symmetric] blob_slice_append_drop)
    show ?thesis
      unfolding readNextChunk_more [OF rd True] IH
      by (simp add: onload_def h chunk_count_more [OF True] offsets_Suc)
  next
    case False
    show ?thesis
      unfolding readNextChunk_last [OF rd False]
      by (simp add: onload_def chunk_count_last [OF False] offsets_one blob_slice_last [OF False])
  qed
qed

lemma readNextChunk_unreadable:
  assumes "p \<in> set (file_unreadable f)" and "p < file_size f"
  shows "offset st \<le> p \<Longrightarrow>
         snd (snd (readNextChunk f cb st ui)) = Inl (Error ''Error reading file.'') \<and>
         offset (fst (readNextChunk f cb st ui)) \<le> p"
proof (induction "file_size f - offset st" arbitrary: st ui rule: less_induct)
  case less
  show ?case
  proof (cases "readAsArrayBuffer f (offset st) (offset st + chunkSize)")
    case None
    then show ?thesis using less.prems by (simp add: readNextChunk_error)
  next
    case (Some r)
    have "\<not> (offset st \<le> p \<and> p < min (offset st + chunkSize) (file_size f))"
      using Some assms(1) by (auto simp: readAsArrayBuffer_def split: if_splits)
    then have le: "offset st + chunkSize \<le> p"
      using less.prems assms(2) by simp
    then have more: "offset st + chunkSize < file_size f"
      using assms(2) by simp
    have "file_size f - offset (onload st r) < file_size f - offset st"
      using more by (simp add: onload_def chunkSize_def)
    moreover have "offset (onload st r) \<le> p"
      using le by (simp add: onload_def)
    ultimately show ?thesis
      using less.hyps by (simp add: readNextChunk_more [OF Some more])
  qed
qed

lemma readNextChunk_ui_preserved:
  assumes "\<And>p u. g (cb p u) = g u"
  shows "g (fst (snd (readNextChunk f (Some cb) st ui))) = g ui"
proof (induction "file_size f - offset st" arbitrary: st ui rule: less_induct)
  case less
  show ?case
  proof (cases "readAsArrayBuffer f (offset st) (offset st + chunkSize)")
    case None
    then show ?thesis by (simp add: readNextChunk_error)
  next
    case (Some r)
    show ?thesis
    proof (cases "offset st + chunkSize < file_size f")
      case True
      have "file_size f - offset (onload st r) < file_size f - offset st"
        using True by (simp add: onload_def chunkSize_def)
      from less [OF this] show ?thesis
        by (simp add: readNextChunk_more [OF Some True] notify_def assms)
    next
      case False
      then show ?thesis by (simp add: readNextChunk_last [OF Some False] notify_def assms)
    qed
  qed
qed

lemma calculateSHA3_256_observer:
  "snd (calculateSHA3_256 m f cb ui) = snd (calculateSHA3_256 m f cb' ui')"
  using readNextChunk_observer [of f cb "\<lparr>hasher = create, offset = 0\<rparr>" ui cb' ui']
  by (cases m) (simp_all add: calculateSHA3_256_def)

lemma calculateSHA3_256_readable:
  "readable f \<Longrightarrow>
   snd (calculateSHA3_256 WithCreate f cb ui) = Inr (hex (update create (file_bytes f)))"
  by (simp add: calculateSHA3_256_def readNextChunk_readable)

lemma calculateSHA3_256_unreadable:
  "p \<in> set (file_unreadable f) \<Longrightarrow> p < file_size f \<Longrightarrow>
   snd (calculateSHA3_256 WithCreate f cb ui) = Inl (Error ''Error reading file.'')"
  using readNextChunk_unreadable [of p f "\<lparr>hasher = create, offset = 0\<rparr>" cb ui]
  by (simp add: calculateSHA3_256_def)

lemma calculateSHA3_256_no_module:
  "m \<noteq> WithCreate \<Longrightarrow>
   calculateSHA3_256 m f cb ui = (ui, Inl (Error ''SHA3-256 implementation not found in the loaded module.''))"
  by (cases m) (simp_all add: calculateSHA3_256_def)

lemma calculateSHA3_256_ui_preserved:
  assumes "\<And>p u. g (cb p u) = g u"
  shows "g (fst (calculateSHA3_256 m f (Some cb) ui)) = g ui"
  using readNextChunk_ui_preserved [of g cb f "\<lparr>hasher = create, offset = 0\<rparr>" ui, OF assms]
  by (cases m) (simp_all add: calculateSHA3_256_def)

lemma foldl_update_concat: "foldl update h chunks = update h (concat chunks)"
  by (induction chunks arbitrary: h) (simp_all add: update_Nil update_append)

lemma formatBytes_default: "\<exists>s. formatBytes n 2 = Inr s"
  by (simp add: formatBytes_def Let_def)

lemma analyzeFileMetadata_returns: "\<exists>s. analyzeFileMetadata ai n sz t h = Inr s"
  by (simp add: analyzeFileMetadata_def split: sum.splits)

lemma analyzeFileMetadata_throws:
  "ai n sz t h = Throws e \<Longrightarrow>
   analyzeFileMetadata ai n sz t h = Inr ''Could not perform AI analysis at this time.''"
  by (simp add: analyzeFileMetadata_def generateContent_def)

lemma setProgress_fields [simp]:
  "results (setProgress p u) = results u" "status (setProgress p u) = status u"
  "errorMsg (setProgress p u) = errorMsg u" "progress (setProgress p u) = p"
  by (simp_all add: setProgress_def)

lemma catch_err_fields [simp]:
  "results (catch_err e u) = results u" "status (catch_err e u) = ERROR"
  "errorMsg (catch_err e u) = Some (if message e = [] then ''Failed to process file.'' else message e)"
  by (simp_all add: catch_err_def)

lemma processFile_rejected:
  assumes "snd (calculateSHA3_256 (sha3_256 env) f (Some setProgress)
             (setProgress (Num 0) (st\<lparr>errorMsg := None, status := PROCESSING\<rparr>))) = Inl err"
  shows "results (processFile env f st) = results st"
    and "status (processFile env f st) = ERROR"
    and "errorMsg (processFile env f st) = Some (if message err = [] then ''Failed to process file.'' else message err)"
    and "progress (processFile env f st) = Num 0"
  using assms calculateSHA3_256_ui_preserved [of results setProgress "sha3_256 env" f
      "setProgress (Num 0) (st\<lparr>errorMsg := None, status := PROCESSING\<rparr>)"]
  by (simp_all add: processFile_def Let_def case_prod_beta)

lemma processFile_resolved:
  assumes "snd (calculateSHA3_256 (sha3_256 env) f (Some setProgress)
             (setProgress (Num 0) (st\<lparr>errorMsg := None, status := PROCESSING\<rparr>))) = Inr h"
  shows "\<exists>fileSize a. formatBytes (file_size f) 2 = Inr fileSize \<and>
           analyzeFileMetadata (genai env) (file_name f) fileSize (unknown_type (file_type f)) h = Inr a \<and>
           results (processFile env f st) =
             \<lparr>r_id = random_id env, r_name = file_name f, r_size = file_size f,
              r_type = unknown_type (file_type f), r_lastModified = file_lastModified f,
              r_hash = h, r_timestamp = now env, r_aiAnalysis = Some a\<rparr> # results st"
    and "status (processFile env f st) = COMPLETED"
    and "progress (processFile env f st) = Num 0"
proof -
  obtain fileSize where fs: "formatBytes (file_size f) 2 = Inr fileSize"
    using formatBytes_default by blast
  obtain a where a: "analyzeFileMetadata (genai env) (file_name f) fileSize (unknown_type (file_type f)) h = Inr a"
    using analyzeFileMetadata_returns by blast
  have r: "results (fst (calculateSHA3_256 (sha3_256 env) f (Some setProgress)
             (setProgress (Num 0) (st\<lparr>errorMsg := None, status := PROCESSING\<rparr>)))) = results st"
    using calculateSHA3_256_ui_preserved [of results setProgress "sha3_256 env" f
      "setProgress (Num 0) (st\<lparr>errorMsg := None, status := PROCESSING\<rparr>)"] by simp
  show "\<exists>fileSize a. formatBytes (file_size f) 2 = Inr fileSize \<and>
           analyzeFileMetadata (genai env) (file_name f) fileSize (unknown_type (file_type f)) h = Inr a \<and>
           results (processFile env f st) =
             \<lparr>r_id = random_id env, r_name = file_name f, r_size = file_size f,
              r_type = unknown_type (file_type f), r_lastModified = file_lastModified f,
              r_hash = h, r_timestamp = now env, r_aiAnalysis = Some a\<rparr> # results st"
    using assms fs a r by (simp add: processFile_def Let_def case_prod_beta)
  show "status (processFile env f st) = COMPLETED"
    using assms fs a by (simp add: processFile_def Let_def case_prod_beta)
  show "progress (processFile env f st) = Num 0"
    by (simp add: processFile_def Let_def case_prod_beta)
qed

lemma processFile_resolved_errorMsg:
  assumes "snd (calculateSHA3_256 (sha3_256 env) f (Some setProgress)
             (setProgress (Num 0) (st\<lparr>errorMsg := None, status := PROCESSING\<rparr>))) = Inr h"
  shows "errorMsg (processFile env f st) = None"
proof -
  obtain fileSize where fs: "formatBytes (file_size f) 2 = Inr fileSize"
    using formatBytes_default by blast
  have "errorMsg (fst (calculateSHA3_256 (sha3_256 env) f (Some setProgress)
             (setProgress (Num 0) (st\<lparr>errorMsg := None, status := PROCESSING\<rparr>)))) = None"
    using calculateSHA3_256_ui_preserved [of errorMsg setProgress "sha3_256 env" f
      "setProgress (Num 0) (st\<lparr>errorMsg := None, status := PROCESSING\<rparr>)"] by simp
  then show ?thesis
    using assms fs by (simp add: processFile_def Let_def case_prod_beta)
qed

lemma chunk_count_covers: "n \<le> chunk_count n * chunkSize"
proof -
  let ?q = "(n + chunkSize - 1) div chunkSize"
  have "?q * chunkSize + (n + chunkSize - 1) mod chunkSize = n + chunkSize - 1"
    by simp
  moreover have "(n + chunkSize - 1) mod chunkSize < chunkSize"
    using chunkSize_pos by simp
  ultimately have "n \<le> ?q * chunkSize" by linarith
  also have "\<dots> \<le> chunk_count n * chunkSize"
    by (simp add: chunk_count_def)
  finally show ?thesis .
qed

lemma readable_small_file: "readable small_file"
  by (simp add: readable_def small_file_def)

lemma readable_big_file: "readable big_file"
  by (simp add: readable_def big_file_def)

lemma file_size_small_file: "file_size small_file = 3"
  by (simp add: file_size_def small_file_def)


lemma damaged_file_unreadable: "1 \<in> set (file_unreadable damaged_file)" "1 < file_size damaged_file"
  by (simp_all add: damaged_file_def file_size_def)

lemma not_readable_iff: "\<not> readable f \<longleftrightarrow> (\<exists>p \<in> set (file_unreadable f). p < file_size f)"
  by (auto simp: readable_def not_le)

lemma offline_fields:
  "sha3_256 offline = WithCreate"
  "genai offline a b c d = Throws (Error ''fetch failed'')"
  by (simp_all add: offline_def)

lemma processFile_readable:
  assumes "readable f" and m: "sha3_256 env = WithCreate"
  shows "\<exists>r. results (processFile env f st) = r # results st
           \<and> r_hash r = hex (update create (file_bytes f))
           \<and> r_name r = file_name f \<and> r_size r = file_size f
           \<and> r_id r = random_id env \<and> r_timestamp r = now env"
proof -
  have "snd (calculateSHA3_256 (sha3_256 env) f (Some setProgress)
             (setProgress (Num 0) (st\<lparr>errorMsg := None, status := PROCESSING\<rparr>))) =
          Inr (hex (update create (file_bytes f)))"
    unfolding m using assms(1) by (rule calculateSHA3_256_readable)
  from processFile_resolved(1) [OF this] obtain fileSize a where
    "results (processFile env f st) =
           \<lparr>r_id = random_id env, r_name = file_name f, r_size = file_size f,
            r_type = unknown_type (file_type f), r_lastModified = file_lastModified f,
            r_hash = hex (update create (file_bytes f)), r_timestamp = now env, r_aiAnalysis = Some a\<rparr> # results st"
    by auto
  then show ?thesis by simp
qed

lemma processFile_not_readable:
  assumes "\<not> readable f" and m: "sha3_256 env = WithCreate"
  shows "results (processFile env f st) = results st"
proof -
  from assms(1) obtain p where p: "p \<in> set (file_unreadable f)" "p < file_size f"
    unfolding not_readable_iff by (elim bexE)
  have "snd (calculateSHA3_256 (sha3_256 env) f (Some setProgress)
             (setProgress (Num 0) (st\<lparr>errorMsg := None, status := PROCESSING\<rparr>))) =
           Inl (Error ''Error reading file.'')"
    unfolding m by (rule calculateSHA3_256_unreadable [OF p])
  from processFile_rejected(1) [OF this] show ?thesis .
qed

lemma processFile_no_module:
  assumes m: "sha3_256 env \<noteq> WithCreate"
  shows "results (processFile env f st) = results st"
proof -
  have "snd (calculateSHA3_256 (sha3_256 env) f (Some setProgress)
             (setProgress (Num 0) (st\<lparr>errorMsg := None, status := PROCESSING\<rparr>))) =
           Inl (Error ''SHA3-256 implementation not found in the loaded module.'')"
    by (simp add: calculateSHA3_256_no_module [OF m])
  from processFile_rejected(1) [OF this] show ?thesis .
qed


lemma processFile_after_readable:
  assumes "readable g" and m: "sha3_256 env = WithCreate"
  shows "status (processFile env g st') = COMPLETED"
    and "errorMsg (processFile env g st') = None"
    and "progress (processFile env g st') = Num 0"
proof -
  have h: "snd (calculateSHA3_256 (sha3_256 env) g (Some setProgress)
               (setProgress (Num 0) (st'\<lparr>errorMsg := None, status := PROCESSING\<rparr>))) =
            Inr (hex (update create (file_bytes g)))"
    unfolding m using assms(1) by (rule calculateSHA3_256_readable)
  show "status (processFile env g st') = COMPLETED" by (rule processFile_resolved(2) [OF h])
  show "errorMsg (processFile env g st') = None" by (rule processFile_resolved_errorMsg [OF h])
  show "progress (processFile env g st') = Num 0" by (rule processFile_resolved(3) [OF h])
qed


lemma chunk_count_0: "chunk_count 0 = 1"
  by (simp add: chunk_count_def chunkSize_def)

lemma progress_of_size_0: "0 < off \<Longrightarrow> progress_of off 0 = Num 100"
  by (simp add: progress_of_def js_div_def js_times_def Math_round_def Math_min_def)

lemma readable_empty: "file_bytes f = [] \<Longrightarrow> readable f"
  by (simp add: readable_def file_size_def)

lemma calculateSHA3_256_empty:
  assumes "file_bytes f = []"
  shows "calculateSHA3_256 WithCreate f onProgress ui =
           (notify onProgress (Num 100) ui,
            Inr ''a7ffc6f8bf1ed76651c14756a061d662f580ff4de43b49fa82d80a4b80f8434a'')"
proof -
  have size0: "file_size f = 0" using assms by (simp add: file_size_def)
  show ?thesis
    unfolding calculateSHA3_256_def
    by (simp add: readNextChunk_readable [OF readable_empty [OF assms]] size0 assms chunk_count_0
          offsets_one update_Nil hex_create progress_of_size_0 chunkSize_pos)
qed


section \<open>Rounding to doubles and the progress values\<close>

lemma pow2_powi: "pow2 e = power_int 2 e"
  by (simp add: pow2_def power_int_def field_simps)

lemma pow2_pos: "0 < pow2 e"
  by (simp add: pow2_powi)

lemma pow2_add: "pow2 (a + b) = pow2 a * pow2 b"
  by (simp add: pow2_powi power_int_add)

lemma pow2_diff: "pow2 (a - b) = pow2 a / pow2 b"
  by (simp add: pow2_powi power_int_diff)

lemma pow2_mono: "a \<le> b \<Longrightarrow> pow2 a \<le> pow2 b"
  by (simp add: pow2_powi power_int_increasing)

lemma pow2_strict_mono: "a < b \<Longrightarrow> pow2 a < pow2 b"
  by (simp add: pow2_powi power_int_strict_increasing)

lemma pow2_less_iff: "pow2 a < pow2 b \<longleftrightarrow> a < b"
  using pow2_mono [of b a] pow2_strict_mono [of a b] by (auto simp: not_le [symmetric])

lemma pow2_nat: "0 \<le> e \<Longrightarrow> pow2 e = 2 ^ nat e"
  by (simp add: pow2_def)

lemma bitlen_pow2_bounds:
  assumes "0 < a"
  shows "pow2 (bitlen a - 1) \<le> of_int a" and "of_int a < pow2 (bitlen a)"
proof -
  have ge: "1 \<le> bitlen a" using assms by (simp add: bitlen_alt_def)
  from bitlen_bounds [OF assms] have "2 ^ nat (bitlen a - 1) \<le> a" and "a < 2 ^ nat (bitlen a)"
    by simp_all
  then have "(of_int (2 ^ nat (bitlen a - 1)) :: rat) \<le> of_int a"
    and "(of_int a :: rat) < of_int (2 ^ nat (bitlen a))"
    by (simp_all only: of_int_le_iff of_int_less_iff)
  then show "pow2 (bitlen a - 1) \<le> of_int a" and "of_int a < pow2 (bitlen a)"
    using ge by (simp_all add: pow2_nat)
qed

lemma ilog2_bounds:
  assumes "0 < x"
  shows "pow2 (ilog2 x) \<le> x" and "x < pow2 (ilog2 x + 1)"
proof -
  obtain a b where q: "quotient_of x = (a, b)" by (cases "quotient_of x")
  have b: "0 < b" using q by (rule quotient_of_denom_pos)
  have x: "x = of_int a / of_int b" using q by (rule quotient_of_div)
  have a: "0 < a" using assms b x by (simp add: zero_less_divide_iff)
  define d where "d = bitlen a - bitlen b"
  have "x < pow2 (bitlen a) / pow2 (bitlen b - 1)"
    unfolding x using bitlen_pow2_bounds [OF a] bitlen_pow2_bounds [OF b] a b pow2_pos
    by (intro frac_less) (simp_all add: less_imp_le)
  then have up: "x < pow2 (d + 1)"
    by (simp add: pow2_diff [symmetric] d_def algebra_simps)
  have "pow2 (bitlen a - 1) / pow2 (bitlen b) < x"
    unfolding x using bitlen_pow2_bounds [OF a] bitlen_pow2_bounds [OF b] a b pow2_pos
    by (intro frac_less2) (simp_all add: less_imp_le)
  then have lo: "pow2 (d - 1) < x"
    by (simp add: pow2_diff [symmetric] d_def algebra_simps)
  have e: "ilog2 x = (if pow2 d \<le> x then d else d - 1)"
    by (simp add: ilog2_def q d_def Let_def)
  show "pow2 (ilog2 x) \<le> x" using lo by (simp add: e less_imp_le)
  show "x < pow2 (ilog2 x + 1)" using up by (simp add: e not_le)
qed

lemma ilog2_unique:
  assumes "pow2 e \<le> x" and "x < pow2 (e + 1)"
  shows "ilog2 x = e"
proof -
  have pos: "0 < x" using assms(1) pow2_pos [of e] by simp
  have "pow2 e < pow2 (ilog2 x + 1)"
    using assms(1) ilog2_bounds(2) [OF pos] by simp
  moreover have "pow2 (ilog2 x) < pow2 (e + 1)"
    using assms(2) ilog2_bounds(1) [OF pos] by simp
  ultimately show ?thesis by (simp add: pow2_less_iff)
qed

lemma ilog2_mono:
  assumes "0 < x" and "x \<le> y"
  shows "ilog2 x \<le> ilog2 y"
proof -
  have "0 < y" using assms by simp
  then have "pow2 (ilog2 x) < pow2 (ilog2 y + 1)"
    using ilog2_bounds(1) [OF assms(1)] ilog2_bounds(2) [of y] assms(2) by simp
  then show ?thesis by (simp add: pow2_less_iff)
qed

lemma round_half_even_floor: "\<lfloor>m\<rfloor> \<le> round_half_even m" "round_half_even m \<le> \<lfloor>m\<rfloor> + 1"
  by (simp_all add: round_half_even_def Let_def)

lemma round_half_even_of_int [simp]: "round_half_even (of_int n) = n"
  by (simp add: round_half_even_def)

lemma round_half_even_mono:
  assumes "a \<le> b"
  shows "round_half_even a \<le> round_half_even b"
proof (cases "\<lfloor>a\<rfloor> = \<lfloor>b\<rfloor>")
  case True
  then have "a - of_int \<lfloor>a\<rfloor> \<le> b - of_int \<lfloor>b\<rfloor>" using assms by simp
  then show ?thesis using True by (auto simp: round_half_even_def Let_def)
next
  case False
  then have "\<lfloor>a\<rfloor> < \<lfloor>b\<rfloor>" using floor_mono [OF assms] by simp
  then have "round_half_even a \<le> \<lfloor>b\<rfloor>" using round_half_even_floor(2) [of a] by simp
  then show ?thesis using round_half_even_floor(1) [of b] by simp
qed

lemma round_half_even_ge: "of_int n \<le> m \<Longrightarrow> n \<le> round_half_even m"
  using round_half_even_mono [of "of_int n" m] by simp

lemma round_half_even_le: "m \<le> of_int n \<Longrightarrow> round_half_even m \<le> n"
  using round_half_even_mono [of m "of_int n"] by simp

lemma fl_pos_eq:
  assumes "pow2 e \<le> x" and "x < pow2 (e + 1)"
  shows "fl_pos x = of_int (round_half_even (x / pow2 (e - 52))) * pow2 (e - 52)"
  by (simp add: fl_pos_def Let_def ilog2_unique [OF assms])

lemma pow2_split:
  "pow2 e = 2 ^ 52 * pow2 (e - 52)" "pow2 (e + 1) = 2 ^ 53 * pow2 (e - 52)"
proof -
  have a: "pow2 52 = 2 ^ 52" and b: "pow2 53 = 2 ^ 53" by (simp_all add: pow2_def)
  have "e = 52 + (e - 52)" by simp
  then have "pow2 e = pow2 (52 + (e - 52))" by (simp only:)
  also have "\<dots> = pow2 52 * pow2 (e - 52)" by (rule pow2_add)
  finally show "pow2 e = 2 ^ 52 * pow2 (e - 52)" by (simp only: a)
  have "e + 1 = 53 + (e - 52)" by simp
  then have "pow2 (e + 1) = pow2 (53 + (e - 52))" by (simp only:)
  also have "\<dots> = pow2 53 * pow2 (e - 52)" by (rule pow2_add)
  finally show "pow2 (e + 1) = 2 ^ 53 * pow2 (e - 52)" by (simp only: b)
qed

lemma significand_bounds:
  assumes "pow2 e \<le> x" and "x < pow2 (e + 1)"
  shows "2 ^ 52 \<le> x / pow2 (e - 52)" and "x / pow2 (e - 52) < 2 ^ 53"
proof -
  note 1 = pow2_split(1) [of e] and 2 = pow2_split(2) [of e]
  show "2 ^ 52 \<le> x / pow2 (e - 52)"
    using assms(1) pow2_pos [of "e - 52"] by (simp add: 1 pos_le_divide_eq)
  show "x / pow2 (e - 52) < 2 ^ 53"
    using assms(2) pow2_pos [of "e - 52"] by (simp add: 2 pos_divide_less_eq)
qed

lemma fl_pos_bounds:
  assumes "pow2 e \<le> x" and "x < pow2 (e + 1)"
  shows "pow2 e \<le> fl_pos x" and "fl_pos x \<le> pow2 (e + 1)"
proof -
  let ?u = "pow2 (e - 52)"
  let ?r = "round_half_even (x / ?u)"
  note 1 = pow2_split(1) [of e] and 2 = pow2_split(2) [of e]
  have "(2 ^ 52 :: int) \<le> ?r"
    using significand_bounds(1) [OF assms] by (intro round_half_even_ge) simp
  then have lo: "(2 ^ 52 :: rat) \<le> of_int ?r"
    by (metis of_int_le_iff of_int_numeral of_int_power)
  have "?r \<le> (2 ^ 53 :: int)"
    using significand_bounds(2) [OF assms] by (intro round_half_even_le) simp
  then have hi: "of_int ?r \<le> (2 ^ 53 :: rat)"
    by (metis of_int_le_iff of_int_numeral of_int_power)
  show "pow2 e \<le> fl_pos x"
    unfolding fl_pos_eq [OF assms] 1 using lo pow2_pos [of "e - 52"] by simp
  show "fl_pos x \<le> pow2 (e + 1)"
    unfolding fl_pos_eq [OF assms] 2 using hi pow2_pos [of "e - 52"] by simp
qed

lemma fl_pos_mono:
  assumes "0 < x" and "x \<le> y"
  shows "fl_pos x \<le> fl_pos y"
proof -
  have y: "0 < y" using assms by simp
  note bx = ilog2_bounds [OF assms(1)] and by' = ilog2_bounds [OF y]
  show ?thesis
  proof (cases "ilog2 x = ilog2 y")
    case True
    have "x / pow2 (ilog2 y - 52) \<le> y / pow2 (ilog2 y - 52)"
      using assms(2) pow2_pos [of "ilog2 y - 52"] by (simp add: divide_right_mono)
    then have "round_half_even (x / pow2 (ilog2 y - 52)) \<le> round_half_even (y / pow2 (ilog2 y - 52))"
      by (rule round_half_even_mono)
    then show ?thesis
      using pow2_pos [of "ilog2 y - 52"] by (simp add: fl_pos_def Let_def True mult_right_mono)
  next
    case False
    then have "ilog2 x + 1 \<le> ilog2 y" using ilog2_mono [OF assms] by simp
    then have "pow2 (ilog2 x + 1) \<le> pow2 (ilog2 y)" by (rule pow2_mono)
    then show ?thesis
      using fl_pos_bounds(2) [OF bx] fl_pos_bounds(1) [OF by'] by simp
  qed
qed

lemma fl_pos_pos: "0 < x \<Longrightarrow> 0 < fl_pos x"
  using fl_pos_bounds(1) [OF ilog2_bounds] pow2_pos [of "ilog2 x"] by (simp add: less_le_trans)

lemma fl_nonneg: "0 \<le> x \<Longrightarrow> 0 \<le> fl x"
  using fl_pos_pos [of x] by (simp add: fl_def less_imp_le)

lemma fl_mono:
  assumes "0 \<le> x" and "x \<le> y"
  shows "fl x \<le> fl y"
proof (cases "x = 0")
  case True
  then show ?thesis using fl_nonneg [of y] assms by (simp add: fl_def)
next
  case False
  then have "0 < x" using assms(1) by simp
  then show ?thesis using fl_pos_mono [of x y] assms(2) by (simp add: fl_def)
qed

lemma fl_1: "fl 1 = 1"
proof -
  have "fl_pos 1 = of_int (round_half_even (1 / pow2 (0 - 52))) * pow2 (0 - 52)"
    by (rule fl_pos_eq) (simp_all add: pow2_def)
  also have "1 / pow2 (0 - 52) = of_int (2 ^ 52)" by (simp add: pow2_def)
  finally show ?thesis by (simp add: fl_def pow2_def del: of_int_power of_int_numeral)
qed

lemma fl_100: "fl 100 = 100"
proof -
  have "fl_pos 100 = of_int (round_half_even (100 / pow2 (6 - 52))) * pow2 (6 - 52)"
    by (rule fl_pos_eq) (simp_all add: pow2_def)
  also have "100 / pow2 (6 - 52) = of_int (100 * 2 ^ 46)" by (simp add: pow2_def)
  finally show ?thesis by (simp add: fl_def pow2_def del: of_int_power of_int_numeral of_int_mult)
qed

lemma progress_of_percent:
  "0 < size' \<Longrightarrow> progress_of off size' = Num (of_int (percent off size'))"
  by (simp add: progress_of_def js_div_def js_times_def Math_round_def Math_min_def percent_def)

lemma percent_mono:
  assumes "off \<le> off'"
  shows "percent off size' \<le> percent off' size'"
proof -
  have "(of_nat off :: rat) / of_nat size' \<le> of_nat off' / of_nat size'"
    using assms by (simp add: divide_right_mono)
  then have "fl (of_nat off / of_nat size') \<le> fl (of_nat off' / of_nat size')"
    by (intro fl_mono) simp_all
  then have "fl (of_nat off / of_nat size') * 100 \<le> fl (of_nat off' / of_nat size') * 100"
    by simp
  moreover have "0 \<le> fl (of_nat off / of_nat size') * 100"
    using fl_nonneg [of "of_nat off / of_nat size'"] by simp
  ultimately have "fl (fl (of_nat off / of_nat size') * 100) \<le> fl (fl (of_nat off' / of_nat size') * 100)"
    by (intro fl_mono)
  then have "\<lfloor>fl (fl (of_nat off / of_nat size') * 100) + 1 / 2\<rfloor>
           \<le> \<lfloor>fl (fl (of_nat off' / of_nat size') * 100) + 1 / 2\<rfloor>"
    by (intro floor_mono) simp
  then show ?thesis by (simp add: percent_def)
qed

lemma percent_range: "0 \<le> percent off size'" "percent off size' \<le> 100"
proof -
  have "0 \<le> fl (of_nat off / of_nat size') * 100"
    using fl_nonneg [of "of_nat off / of_nat size'"] by simp
  then have "0 \<le> fl (fl (of_nat off / of_nat size') * 100)" by (rule fl_nonneg)
  then have "0 \<le> \<lfloor>fl (fl (of_nat off / of_nat size') * 100) + 1 / 2\<rfloor>" by simp
  then show "0 \<le> percent off size'" by (simp add: percent_def)
  show "percent off size' \<le> 100" by (simp add: percent_def)
qed

lemma percent_full:
  assumes "0 < size'" and "size' \<le> off"
  shows "percent off size' = 100"
proof -
  have "(1 :: rat) \<le> of_nat off / of_nat size'"
    using assms by (simp add: pos_le_divide_eq)
  then have "fl 1 \<le> fl (of_nat off / of_nat size')" by (intro fl_mono) simp_all
  then have "100 \<le> fl (of_nat off / of_nat size') * 100" by (simp add: fl_1)
  then have "fl 100 \<le> fl (fl (of_nat off / of_nat size') * 100)" by (intro fl_mono) simp_all
  then have "(100 :: rat) \<le> fl (fl (of_nat off / of_nat size') * 100) + 1 / 2" by (simp add: fl_100)
  then have "100 \<le> \<lfloor>fl (fl (of_nat off / of_nat size') * 100) + 1 / 2\<rfloor>"
    by (simp add: le_floor_iff)
  then show ?thesis by (simp add: percent_def)
qed

lemma progress_of_is_percentage:
  assumes "0 < off"
  shows "\<exists>n\<le>100. progress_of off size' = Num (of_nat n)"
proof (cases "size' = 0")
  case True
  then have "progress_of off size' = Num (of_nat 100)"
    using assms by (simp add: progress_of_size_0)
  then show ?thesis by blast
next
  case False
  then have p: "progress_of off size' = Num (of_int (percent off size'))"
    by (simp add: progress_of_percent)
  have "of_int (percent off size') = (of_nat (nat (percent off size')) :: rat)"
    using percent_range(1) [of off size'] by simp
  moreover have "nat (percent off size') \<le> 100"
    using percent_range(2) [of off size'] by simp
  ultimately show ?thesis using p by metis
qed

lemma progress_of_mono:
  assumes "0 < off" and "off \<le> off'"
  shows "js_le (progress_of off size') (progress_of off' size')"
proof (cases "size' = 0")
  case True
  then show ?thesis using assms by (simp add: progress_of_size_0)
next
  case False
  then show ?thesis using percent_mono [OF assms(2)] by (simp add: progress_of_percent)
qed

lemma progress_of_full:
  assumes "0 < off" and "size' \<le> off"
  shows "progress_of off size' = Num 100"
proof (cases "size' = 0")
  case True
  then show ?thesis using assms by (simp add: progress_of_size_0)
next
  case False
  then show ?thesis using percent_full [of size' off] assms by (simp add: progress_of_percent)
qed


lemma floor_rat_numeral: "\<lfloor>(numeral a :: rat) / numeral b\<rfloor> = numeral a div numeral b"
  using floor_divide_of_int_eq [of "numeral a" "numeral b", where ?'a = rat] by simp

lemma fl_two_thirds: "fl (2 / 3) = 6004799503160661 / 2 ^ 53"
proof -
  have "fl_pos (2 / 3) = of_int (round_half_even ((2 / 3) / pow2 (- 1 - 52))) * pow2 (- 1 - 52)"
    by (rule fl_pos_eq) (simp_all add: pow2_def)
  also have "round_half_even ((2 / 3) / pow2 (- 1 - 52)) = 6004799503160661"
    by (simp add: pow2_def round_half_even_def Let_def floor_rat_numeral)
  finally show ?thesis by (simp add: fl_def pow2_def)
qed

lemma fl_one_third: "fl (1 / 3) = 6004799503160661 / 2 ^ 54"
proof -
  have "fl_pos (1 / 3) = of_int (round_half_even ((1 / 3) / pow2 (- 2 - 52))) * pow2 (- 2 - 52)"
    by (rule fl_pos_eq) (simp_all add: pow2_def)
  also have "round_half_even ((1 / 3) / pow2 (- 2 - 52)) = 6004799503160661"
    by (simp add: pow2_def round_half_even_def Let_def floor_rat_numeral)
  finally show ?thesis by (simp add: fl_def pow2_def)
qed

lemma fl_66: "fl (150119987579016525 / 2251799813685248) = 4691249611844266 / 2 ^ 46"
proof -
  have "fl_pos (150119987579016525 / 2251799813685248) =
          of_int (round_half_even ((150119987579016525 / 2251799813685248) / pow2 (6 - 52))) * pow2 (6 - 52)"
    by (rule fl_pos_eq) (simp_all add: pow2_def)
  also have "round_half_even ((150119987579016525 / 2251799813685248) / pow2 (6 - 52)) = 4691249611844266"
    by (simp add: pow2_def round_half_even_def Let_def floor_rat_numeral)
  finally show ?thesis by (simp add: fl_def pow2_def)
qed

lemma fl_33: "fl (150119987579016525 / 4503599627370496) = 4691249611844266 / 2 ^ 47"
proof -
  have "fl_pos (150119987579016525 / 4503599627370496) =
          of_int (round_half_even ((150119987579016525 / 4503599627370496) / pow2 (5 - 52))) * pow2 (5 - 52)"
    by (rule fl_pos_eq) (simp_all add: pow2_def)
  also have "round_half_even ((150119987579016525 / 4503599627370496) / pow2 (5 - 52)) = 4691249611844266"
    by (simp add: pow2_def round_half_even_def Let_def floor_rat_numeral)
  finally show ?thesis by (simp add: fl_def pow2_def)
qed

lemma percent_two_thirds: "percent (2 * chunkSize) (3 * chunkSize) = 67"
proof -
  have "percent (2 * chunkSize) (3 * chunkSize) = min 100 \<lfloor>fl (fl (2 / 3) * 100) + 1 / 2\<rfloor>"
    by (simp add: percent_def chunkSize_def)
  then show ?thesis
    by (simp add: fl_two_thirds fl_66 floor_rat_numeral)
qed

lemma percent_one_third: "percent (1 * chunkSize) (3 * chunkSize) = 33"
proof -
  have "percent (1 * chunkSize) (3 * chunkSize) = min 100 \<lfloor>fl (fl (1 / 3) * 100) + 1 / 2\<rfloor>"
    by (simp add: percent_def chunkSize_def)
  then show ?thesis
    by (simp add: fl_one_third fl_33 floor_rat_numeral)
qed

lemma trace_fold:
  "foldl (\<lambda>u off. notify (Some (\<lambda>p log. log @ [p])) (g off) u) ui offs = ui @ map g offs"
  by (induction offs arbitrary: ui) (simp_all add: notify_def)

lemma progress_trace_readable: "readable f \<Longrightarrow> progress_trace f = reported f"
  by (simp add: progress_trace_def calculateSHA3_256_def readNextChunk_readable trace_fold reported_def)

lemma readNextChunk_trace_prefix:
  "\<exists>k. fst (snd (readNextChunk f (Some (\<lambda>p log. log @ [p])) st ui)) =
         ui @ take k (map (\<lambda>off. progress_of off (file_size f))
                       (offsets (offset st) (chunk_count (file_size f - offset st))))"
proof (induction "file_size f - offset st" arbitrary: st ui rule: less_induct)
  case less
  show ?case
  proof (cases "readAsArrayBuffer f (offset st) (offset st + chunkSize)")
    case None
    have "fst (snd (readNextChunk f (Some (\<lambda>p log. log @ [p])) st ui)) =
         ui @ take 0 (map (\<lambda>off. progress_of off (file_size f))
                       (offsets (offset st) (chunk_count (file_size f - offset st))))"
      by (simp add: readNextChunk_error [OF None])
    then show ?thesis by blast
  next
    case (Some r)
    show ?thesis
    proof (cases "offset st + chunkSize < file_size f")
      case True
      have "file_size f - offset (onload st r) < file_size f - offset st"
        using True by (simp add: onload_def chunkSize_def)
      from less [OF this, of "ui @ [progress_of (offset st + chunkSize) (file_size f)]"]
      obtain k where "fst (snd (readNextChunk f (Some (\<lambda>p log. log @ [p])) (onload st r)
                 (ui @ [progress_of (offset st + chunkSize) (file_size f)]))) =
         (ui @ [progress_of (offset st + chunkSize) (file_size f)]) @
           take k (map (\<lambda>off. progress_of off (file_size f))
                       (offsets (offset (onload st r)) (chunk_count (file_size f - offset (onload st r)))))"
        by blast
      then have "fst (snd (readNextChunk f (Some (\<lambda>p log. log @ [p])) st ui)) =
         ui @ take (Suc k) (map (\<lambda>off. progress_of off (file_size f))
                       (offsets (offset st) (chunk_count (file_size f - offset st))))"
        by (simp add: readNextChunk_more [OF Some True] notify_def onload_def
              chunk_count_more [OF True] offsets_Suc)
      then show ?thesis by blast
    next
      case False
      have "fst (snd (readNextChunk f (Some (\<lambda>p log. log @ [p])) st ui)) =
         ui @ take 1 (map (\<lambda>off. progress_of off (file_size f))
                       (offsets (offset st) (chunk_count (file_size f - offset st))))"
        by (simp add: readNextChunk_last [OF Some False] notify_def chunk_count_last [OF False] offsets_one)
      then show ?thesis by blast
    qed
  qed
qed

lemma progress_trace_prefix: "\<exists>k. progress_trace f = take k (reported f)"
  using readNextChunk_trace_prefix [of f "\<lparr>hasher = create, offset = 0\<rparr>" "[]"]
  by (simp add: progress_trace_def calculateSHA3_256_def reported_def)

lemma chunk_count_pos: "0 < chunk_count n"
  by (simp add: chunk_count_def)

lemma offsets_positive: "off' \<in> set (offsets off n) \<Longrightarrow> 0 < off'"
  using chunkSize_pos by (auto simp: offsets_def)

lemma offsets_sorted: "sorted_wrt (<) (offsets off n)"
proof -
  have "sorted_wrt (\<lambda>i j. off + i * chunkSize < off + j * chunkSize) [1..<Suc n]"
    using chunkSize_pos by (intro sorted_wrt_mono_rel [OF _ sorted_wrt_upt]) simp
  then show ?thesis by (simp add: offsets_def sorted_wrt_map)
qed

lemma reported_percentages: "v \<in> set (reported f) \<Longrightarrow> \<exists>n\<le>100. v = Num (of_nat n)"
  using progress_of_is_percentage offsets_positive by (auto simp: reported_def)

lemma reported_sorted: "sorted_wrt js_le (reported f)"
proof -
  have "sorted_wrt (\<lambda>a b. js_le (progress_of a (file_size f)) (progress_of b (file_size f)))
          (offsets 0 (chunk_count (file_size f)))"
    using offsets_positive
    by (intro sorted_wrt_mono_rel [OF _ offsets_sorted]) (simp add: progress_of_mono less_imp_le)
  then show ?thesis by (simp add: reported_def sorted_wrt_map)
qed

lemma reported_nonempty: "reported f \<noteq> []"
  using chunk_count_pos [of "file_size f"] by (simp add: reported_def offsets_def)

lemma reported_last: "last (reported f) = Num 100"
proof -
  let ?n = "chunk_count (file_size f)"
  have n: "0 < ?n" by (rule chunk_count_pos)
  then have "last (offsets 0 ?n) = ?n * chunkSize"
    by (simp add: offsets_def last_map)
  then have "last (reported f) = progress_of (?n * chunkSize) (file_size f)"
    using n by (simp add: reported_def last_map offsets_def)
  moreover have "0 < ?n * chunkSize" using n chunkSize_pos by simp
  moreover have "file_size f \<le> ?n * chunkSize" by (rule chunk_count_covers)
  ultimately show ?thesis by (simp add: progress_of_full)
qed

lemma reported_nth:
  assumes "k < chunk_count (file_size f)"
  shows "reported f ! k = progress_of (Suc k * chunkSize) (file_size f)"
  using assms by (simp add: reported_def offsets_def nth_map_upt del: upt_Suc)

lemma reported_length: "length (reported f) = chunk_count (file_size f)"
  by (simp add: reported_def offsets_def)


lemma file_size_big_file: "file_size big_file = 3 * chunkSize"
  by (simp add: file_size_def big_file_def)

lemma chunk_count_big_file: "chunk_count (3 * chunkSize) = 3"
proof -
  have "(3 * chunkSize + chunkSize - 1) div chunkSize = 3"
    by (simp add: chunkSize_def)
  then show ?thesis by (simp add: chunk_count_def)
qed

lemma progress_trace_big_file: "progress_trace big_file = [Num 33, Num 67, Num 100]"
proof -
  have "offsets 0 3 = [1 * chunkSize, 2 * chunkSize, 3 * chunkSize]"
    by (simp add: offsets_def upt_rec)
  then have "reported big_file =
    [progress_of (1 * chunkSize) (3 * chunkSize), progress_of (2 * chunkSize) (3 * chunkSize),
     progress_of (3 * chunkSize) (3 * chunkSize)]"
    by (simp add: reported_def file_size_big_file chunk_count_big_file)
  moreover have "progress_of (1 * chunkSize) (3 * chunkSize) = Num 33"
    using chunkSize_pos by (simp only: progress_of_percent percent_one_third) simp
  moreover have "progress_of (2 * chunkSize) (3 * chunkSize) = Num 67"
    using chunkSize_pos by (simp only: progress_of_percent percent_two_thirds) simp
  moreover have "progress_of (3 * chunkSize) (3 * chunkSize) = Num 100"
    using chunkSize_pos by (intro progress_of_full) simp_all
  ultimately show ?thesis
    by (simp add: progress_trace_readable [OF readable_big_file])
qed

lemma progress_trace_damaged_file: "progress_trace damaged_file = []"
proof -
  have "readAsArrayBuffer damaged_file 0 (0 + chunkSize) = None"
    by (simp add: readAsArrayBuffer_def damaged_file_def file_size_def chunkSize_def)
  then show ?thesis
    by (simp add: progress_trace_def calculateSHA3_256_def readNextChunk_error)
qed

lemma file_size_torn_file: "file_size torn_file = 3 * chunkSize"
  by (simp add: file_size_def torn_file_def)

lemma progress_trace_torn_file: "progress_trace torn_file = [Num 33, Num 67]"
proof -
  let ?cb = "Some (\<lambda>p log. log @ [p])"
  let ?s0 = "\<lparr>hasher = create, offset = 0\<rparr>"
  obtain r0 where r0: "readAsArrayBuffer torn_file (offset ?s0) (offset ?s0 + chunkSize) = Some r0"
    by (simp add: readAsArrayBuffer_def torn_file_def file_size_def chunkSize_def)
  let ?s1 = "onload ?s0 r0"
  have o1: "offset ?s1 = chunkSize" by (simp add: onload_def)
  obtain r1 where r1: "readAsArrayBuffer torn_file (offset ?s1) (offset ?s1 + chunkSize) = Some r1"
    unfolding o1 by (simp add: readAsArrayBuffer_def torn_file_def file_size_def chunkSize_def)
  let ?s2 = "onload ?s1 r1"
  have o2: "offset ?s2 = 2 * chunkSize" by (simp add: onload_def)
  have r2: "readAsArrayBuffer torn_file (offset ?s2) (offset ?s2 + chunkSize) = None"
    unfolding o2 by (simp add: readAsArrayBuffer_def torn_file_def file_size_def chunkSize_def)
  have p1: "progress_of (1 * chunkSize) (3 * chunkSize) = Num 33"
    using chunkSize_pos by (simp only: progress_of_percent percent_one_third) simp
  have "progress_of (2 * chunkSize) (3 * chunkSize) = Num 67"
    using chunkSize_pos by (simp only: progress_of_percent percent_two_thirds) simp
  then have p2: "progress_of (chunkSize + chunkSize) (3 * chunkSize) = Num 67"
    by (simp add: mult_2)
  have "readNextChunk torn_file ?cb ?s0 [] =
        readNextChunk torn_file ?cb ?s1 [Num 33]"
    using p1 chunkSize_pos by (subst readNextChunk_more [OF r0]) (simp_all add: file_size_torn_file notify_def)
  also have "\<dots> = readNextChunk torn_file ?cb ?s2 [Num 33, Num 67]"
    using p2 chunkSize_pos
    by (subst readNextChunk_more [OF r1]) (simp_all add: file_size_torn_file notify_def o1)
  also have "\<dots> = (?s2, [Num 33, Num 67], Inl (Error ''Error reading file.''))"
    by (rule readNextChunk_error [OF r2])
  finally show ?thesis
    by (simp add: progress_trace_def calculateSHA3_256_def)
qed


section \<open>Numbers as strings and the size formatter\<close>

lemma pow10_powi: "pow10 e = power_int 10 e"
  by (simp add: pow10_def power_int_def field_simps)

lemma pow10_pos: "0 < pow10 e"
  by (simp add: pow10_powi)

lemma pow10_diff: "pow10 (a - b) = pow10 a / pow10 b"
  by (simp add: pow10_powi power_int_diff)

lemma pow10_less_iff: "pow10 a < pow10 b \<longleftrightarrow> a < b"
proof
  assume "pow10 a < pow10 b"
  then show "a < b"
    using power_int_increasing [of b a "10 :: rat"] by (auto simp: pow10_powi not_le [symmetric])
next
  assume "a < b"
  then show "pow10 a < pow10 b"
    by (simp add: pow10_powi power_int_strict_increasing)
qed

lemma floorlog10_pow10_bounds:
  assumes "0 < a"
  shows "pow10 (int (floorlog 10 (nat a)) - 1) \<le> of_int a"
    and "of_int a < pow10 (int (floorlog 10 (nat a)))"
proof -
  let ?l = "floorlog 10 (nat a)"
  have pos: "0 < nat a" using assms by simp
  from floorlog_bounds [OF pos, of 10] have 1: "10 ^ (?l - 1) \<le> nat a" and 2: "nat a < 10 ^ ?l"
    by simp_all
  have ge: "1 \<le> ?l" using pos by (simp add: floorlog_def)
  have "int (10 ^ (?l - 1)) \<le> a" using 1 assms by linarith
  then have "(of_int (int (10 ^ (?l - 1))) :: rat) \<le> of_int a" by (simp only: of_int_le_iff)
  moreover have "pow10 (int ?l - 1) = 10 ^ (?l - 1)"
    using ge by (simp add: pow10_def nat_diff_distrib)
  ultimately show "pow10 (int ?l - 1) \<le> of_int a" by simp
  have "a < int (10 ^ ?l)" using 2 assms by linarith
  then have "(of_int a :: rat) < of_int (int (10 ^ ?l))" by (simp only: of_int_less_iff)
  moreover have "pow10 (int ?l) = 10 ^ ?l" by (simp add: pow10_def)
  ultimately show "of_int a < pow10 (int ?l)" by simp
qed

lemma ilog10_bounds:
  assumes "0 < x"
  shows "pow10 (ilog10 x) \<le> x" and "x < pow10 (ilog10 x + 1)"
proof -
  obtain a b where q: "quotient_of x = (a, b)" by (cases "quotient_of x")
  have b: "0 < b" using q by (rule quotient_of_denom_pos)
  have x: "x = of_int a / of_int b" using q by (rule quotient_of_div)
  have a: "0 < a" using assms b x by (simp add: zero_less_divide_iff)
  define la where "la = int (floorlog 10 (nat a))"
  define lb where "lb = int (floorlog 10 (nat b))"
  define d where "d = la - lb"
  note A = floorlog10_pow10_bounds [OF a, folded la_def]
  note B = floorlog10_pow10_bounds [OF b, folded lb_def]
  have "x < pow10 la / pow10 (lb - 1)"
    unfolding x using A B a b pow10_pos
    by (intro frac_less) (simp_all add: less_imp_le)
  then have up: "x < pow10 (d + 1)"
    by (simp add: pow10_diff [symmetric] d_def algebra_simps)
  have "pow10 (la - 1) / pow10 lb < x"
    unfolding x using A B a b pow10_pos
    by (intro frac_less2) (simp_all add: less_imp_le)
  then have lo: "pow10 (d - 1) < x"
    by (simp add: pow10_diff [symmetric] d_def algebra_simps)
  have e: "ilog10 x = (if pow10 d \<le> x then d else d - 1)"
    by (simp add: ilog10_def q d_def la_def lb_def Let_def)
  show "pow10 (ilog10 x) \<le> x" using lo by (simp add: e less_imp_le)
  show "x < pow10 (ilog10 x + 1)" using up by (simp add: e not_le)
qed

lemma ilog10_unique:
  assumes "pow10 e \<le> x" and "x < pow10 (e + 1)"
  shows "ilog10 x = e"
proof -
  have pos: "0 < x" using assms(1) pow10_pos [of e] by simp
  have "pow10 e < pow10 (ilog10 x + 1)"
    using assms(1) ilog10_bounds(2) [OF pos] by simp
  moreover have "pow10 (ilog10 x) < pow10 (e + 1)"
    using assms(2) ilog10_bounds(1) [OF pos] by simp
  ultimately show ?thesis by (simp add: pow10_less_iff)
qed

lemma index_bounds:
  assumes "0 < n"
  shows "1024 ^ (floorlog 1024 n - 1) \<le> n" and "n < 1024 ^ (floorlog 1024 n - 1 + 1)"
proof -
  have "1 \<le> floorlog 1024 n" using assms by (simp add: floorlog_def)
  then show "1024 ^ (floorlog 1024 n - 1) \<le> n" and "n < 1024 ^ (floorlog 1024 n - 1 + 1)"
    using floorlog_bounds [OF assms, of 1024] by simp_all
qed

lemma index_unique:
  assumes "1024 ^ i \<le> n" and "n < 1024 ^ (i + 1)"
  shows "floorlog 1024 n - 1 = i"
proof -
  have pos: "0 < n" using assms(1) by (metis gr0I not_less power_not_zero zero_neq_numeral le_zero_eq)
  have "(1024 :: nat) ^ i < 1024 ^ (floorlog 1024 n - 1 + 1)"
    using assms(1) index_bounds(2) [OF pos] by simp
  moreover have "(1024 :: nat) ^ (floorlog 1024 n - 1) < 1024 ^ (i + 1)"
    using assms(2) index_bounds(1) [OF pos] by simp
  ultimately have "i < floorlog 1024 n - 1 + 1" and "floorlog 1024 n - 1 < i + 1"
    by (simp_all only: power_strict_increasing_iff [of "1024 :: nat"] one_less_numeral_iff semiring_norm)
  then show ?thesis by simp
qed

lemma index_log:
  assumes "0 < n"
  shows "int (floorlog 1024 n - 1) = \<lfloor>ln (real n) / ln 1024\<rfloor>"
proof -
  have "0 \<le> log 1024 (real n)" using assms by simp
  then show ?thesis using assms by (simp add: floorlog_def log_def)
qed

lemma fl_one: "fl (1) = 1"
proof -
  have "fl_pos (1) = of_int (round_half_even ((1) / pow2 (0 - 52))) * pow2 (0 - 52)"
    by (rule fl_pos_eq) (simp_all add: pow2_def)
  also have "round_half_even ((1) / pow2 (0 - 52)) = 4503599627370496"
    by (simp add: pow2_def round_half_even_def Let_def floor_rat_numeral)
  finally show ?thesis by (simp add: fl_def pow2_def)
qed

lemma fl_two: "fl (2) = 2"
proof -
  have "fl_pos (2) = of_int (round_half_even ((2) / pow2 (1 - 52))) * pow2 (1 - 52)"
    by (rule fl_pos_eq) (simp_all add: pow2_def)
  also have "round_half_even ((2) / pow2 (1 - 52)) = 4503599627370496"
    by (simp add: pow2_def round_half_even_def Let_def floor_rat_numeral)
  finally show ?thesis by (simp add: fl_def pow2_def)
qed

lemma fl_three: "fl (3) = 3"
proof -
  have "fl_pos (3) = of_int (round_half_even ((3) / pow2 (1 - 52))) * pow2 (1 - 52)"
    by (rule fl_pos_eq) (simp_all add: pow2_def)
  also have "round_half_even ((3) / pow2 (1 - 52)) = 6755399441055744"
    by (simp add: pow2_def round_half_even_def Let_def floor_rat_numeral)
  finally show ?thesis by (simp add: fl_def pow2_def)
qed

lemma fl_3_2: "fl (3 / 2) = 3 / 2"
proof -
  have "fl_pos (3 / 2) = of_int (round_half_even ((3 / 2) / pow2 (0 - 52))) * pow2 (0 - 52)"
    by (rule fl_pos_eq) (simp_all add: pow2_def)
  also have "round_half_even ((3 / 2) / pow2 (0 - 52)) = 6755399441055744"
    by (simp add: pow2_def round_half_even_def Let_def floor_rat_numeral)
  finally show ?thesis by (simp add: fl_def pow2_def)
qed

lemma fl_7_5: "fl (7 / 5) = 3152519739159347 / 2251799813685248"
proof -
  have "fl_pos (7 / 5) = of_int (round_half_even ((7 / 5) / pow2 (0 - 52))) * pow2 (0 - 52)"
    by (rule fl_pos_eq) (simp_all add: pow2_def)
  also have "round_half_even ((7 / 5) / pow2 (0 - 52)) = 6305039478318694"
    by (simp add: pow2_def round_half_even_def Let_def floor_rat_numeral)
  finally show ?thesis by (simp add: fl_def pow2_def)
qed

lemma fl_73_50: "fl (73 / 50) = 1643813863990231 / 1125899906842624"
proof -
  have "fl_pos (73 / 50) = of_int (round_half_even ((73 / 50) / pow2 (0 - 52))) * pow2 (0 - 52)"
    by (rule fl_pos_eq) (simp_all add: pow2_def)
  also have "round_half_even ((73 / 50) / pow2 (0 - 52)) = 6575255455960924"
    by (simp add: pow2_def round_half_even_def Let_def floor_rat_numeral)
  finally show ?thesis by (simp add: fl_def pow2_def)
qed

lemma fl_29_20: "fl (29 / 20) = 6530219459687219 / 4503599627370496"
proof -
  have "fl_pos (29 / 20) = of_int (round_half_even ((29 / 20) / pow2 (0 - 52))) * pow2 (0 - 52)"
    by (rule fl_pos_eq) (simp_all add: pow2_def)
  also have "round_half_even ((29 / 20) / pow2 (0 - 52)) = 6530219459687219"
    by (simp add: pow2_def round_half_even_def Let_def floor_rat_numeral)
  finally show ?thesis by (simp add: fl_def pow2_def)
qed

lemma fl_375_256: "fl (375 / 256) = 375 / 256"
proof -
  have "fl_pos (375 / 256) = of_int (round_half_even ((375 / 256) / pow2 (0 - 52))) * pow2 (0 - 52)"
    by (rule fl_pos_eq) (simp_all add: pow2_def)
  also have "round_half_even ((375 / 256) / pow2 (0 - 52)) = 6597069766656000"
    by (simp add: pow2_def round_half_even_def Let_def floor_rat_numeral)
  finally show ?thesis by (simp add: fl_def pow2_def)
qed

declare digits_of_nat.simps [simp del]

lemma search_hit:
  "0 < fuel \<Longrightarrow> candidates v n k = w # ws \<Longrightarrow> shortest_search v n k fuel = w"
  by (cases fuel) simp_all

lemma search_miss:
  "0 < fuel \<Longrightarrow> candidates v n k = [] \<Longrightarrow>
   shortest_search v n k fuel = shortest_search v n (Suc k) (fuel - 1)"
  by (cases fuel) simp_all

lemma digits_of_digit: "n < 10 \<Longrightarrow> digits_of_nat n = [digit_char n]"
  by (simp add: digits_of_nat.simps)

lemma frac_digits_numeral:
  "frac_digits (numeral k) r =
     (if r = 0 then []
      else (let d = nat \<lfloor>r * 10\<rfloor> in digit_char d # frac_digits (pred_numeral k) (r * 10 - of_nat d)))"
  by (simp add: numeral_eq_Suc)

lemma ilog10_units: "1 \<le> x \<Longrightarrow> x < 10 \<Longrightarrow> ilog10 x = 0"
  by (rule ilog10_unique) (simp_all add: pow10_def)

lemma shortest_decimal_1: "shortest_decimal 1 = 1"
proof -
  have "candidates 1 1 1 = [1]"
    by (simp add: candidates_def Let_def pow10_def fl_one fl_two)
  then show ?thesis
    by (simp add: shortest_decimal_def ilog10_units search_hit)
qed

lemma shortest_decimal_2: "shortest_decimal 2 = 2"
proof -
  have "candidates 2 1 1 = [2]"
    by (simp add: candidates_def Let_def pow10_def fl_two fl_three)
  then show ?thesis
    by (simp add: shortest_decimal_def ilog10_units search_hit)
qed

lemma shortest_decimal_146: "shortest_decimal (1643813863990231 / 1125899906842624) = 73 / 50"
proof -
  let ?v = "1643813863990231 / 1125899906842624 :: rat"
  have 1: "candidates ?v 1 (Suc 0) = []"
    by (simp add: candidates_def Let_def pow10_def fl_one fl_two floor_rat_numeral)
  have 2: "candidates ?v 1 (Suc (Suc 0)) = []"
    by (simp add: candidates_def Let_def pow10_def fl_3_2 fl_7_5 floor_rat_numeral)
  have 3: "candidates ?v 1 (Suc (Suc (Suc 0))) = [73 / 50]"
    by (simp add: candidates_def Let_def pow10_def fl_73_50 fl_29_20 floor_rat_numeral)
  have "ilog10 ?v = 0" by (rule ilog10_units) simp_all
  then show ?thesis
    by (simp add: shortest_decimal_def search_miss [OF _ 1] search_miss [OF _ 2] search_hit [OF _ 3])
qed

lemma js_toString_1: "js_toString (Num 1) = ''1''"
  by (simp add: js_toString_def shortest_decimal_1 render_decimal_def digits_of_digit digit_char_def)

lemma js_toString_2: "js_toString (Num 2) = ''2''"
  by (simp add: js_toString_def shortest_decimal_2 render_decimal_def digits_of_digit digit_char_def)

lemma js_toString_146: "js_toString (Num (1643813863990231 / 1125899906842624)) = ''1.46''"
  by (simp add: js_toString_def shortest_decimal_146 render_decimal_def digits_of_digit digit_char_def
        floor_rat_numeral frac_digits_numeral Let_def)

lemma formatBytes_unfold:
  assumes "1024 ^ i \<le> n" and "n < 1024 ^ (i + 1)" and "d \<le> 100"
  shows "formatBytes n d =
           Inr (js_toString (Num (fl (toFixed_value (fl (of_nat n / 1024 ^ i)) (nat d)))) @ '' '' @
                (if i < 5 then sizes ! i else ''undefined''))"
proof -
  have pos: "n \<noteq> 0" using assms(1) by (metis le_zero_eq power_not_zero zero_neq_numeral)
  have i: "floorlog 1024 n - 1 = i" using assms(1,2) by (rule index_unique)
  have d: "nat (if d < 0 then 0 else d) = nat d" by simp
  show ?thesis
    unfolding formatBytes_def Let_def i d
    using pos assms(3) by (simp add: js_div_def parseFloat_toFixed_def sizes_def)
qed

lemma formatBytes_0: "formatBytes 0 d = Inr ''0 Bytes''"
  by (simp add: formatBytes_def)

lemma formatBytes_1024: "formatBytes 1024 2 = Inr ''1 KB''"
proof -
  have "formatBytes 1024 2 =
           Inr (js_toString (Num (fl (toFixed_value (fl (of_nat 1024 / 1024 ^ 1)) (nat 2)))) @ '' '' @
                (if (1::nat) < 5 then sizes ! 1 else ''undefined''))"
    by (rule formatBytes_unfold) simp_all
  then show ?thesis
    by (simp add: fl_one toFixed_value_def floor_rat_numeral js_toString_1 sizes_def)
qed

lemma formatBytes_1500: "formatBytes 1500 2 = Inr ''1.46 KB''"
proof -
  have "formatBytes 1500 2 =
           Inr (js_toString (Num (fl (toFixed_value (fl (of_nat 1500 / 1024 ^ 1)) (nat 2)))) @ '' '' @
                (if (1::nat) < 5 then sizes ! 1 else ''undefined''))"
    by (rule formatBytes_unfold) simp_all
  then show ?thesis
    by (simp add: fl_375_256 toFixed_value_def floor_rat_numeral fl_73_50 js_toString_146 sizes_def)
qed

lemma formatBytes_1500_neg: "formatBytes 1500 (- 1) = Inr ''1 KB''"
proof -
  have "formatBytes 1500 (- 1) =
           Inr (js_toString (Num (fl (toFixed_value (fl (of_nat 1500 / 1024 ^ 1)) (nat (- 1))))) @ '' '' @
                (if (1::nat) < 5 then sizes ! 1 else ''undefined''))"
    by (rule formatBytes_unfold) simp_all
  then show ?thesis
    by (simp add: fl_375_256 toFixed_value_def floor_rat_numeral fl_one js_toString_1 sizes_def)
qed

lemma formatBytes_1500_101:
  "formatBytes 1500 101 = Inl (RangeError ''toFixed() digits argument must be between 0 and 100'')"
  by (simp add: formatBytes_def)

lemma formatBytes_2_51: "formatBytes (2 ^ 51) 2 = Inr ''2 undefined''"
proof -
  have "formatBytes (2 ^ 51) 2 =
           Inr (js_toString (Num (fl (toFixed_value (fl (of_nat (2 ^ 51) / 1024 ^ 5)) (nat 2)))) @ '' '' @
                (if (5::nat) < 5 then sizes ! 5 else ''undefined''))"
    by (rule formatBytes_unfold) simp_all
  then show ?thesis
    by (simp add: fl_two toFixed_value_def floor_rat_numeral js_toString_2)
qed

lemma pow2_0 [simp]: "pow2 0 = 1"
  by (simp add: pow2_def)

lemma fl_dyadic:
  assumes "0 < n" and "n < 2 ^ 53"
  shows "fl (of_nat n / 2 ^ k) = of_nat n / 2 ^ k"
proof -
  define b where "b = bitlen (int n)"
  define x :: rat where "x = of_nat n / 2 ^ k"
  define e where "e = b - 1 - int k"
  have n: "0 < int n" using assms(1) by simp
  note B = bitlen_pow2_bounds [OF n, folded b_def]
  have k: "pow2 (- int k) = 1 / 2 ^ k"
    by (simp add: pow2_powi power_int_minus field_simps)
  have xk: "x = of_int (int n) * pow2 (- int k)"
    by (simp add: x_def k)
  have "pow2 (b - 1) < pow2 53"
  proof -
    have "(of_int (int n) :: rat) < 2 ^ 53"
      using assms(2) by (metis of_int_of_nat_eq of_nat_less_iff of_nat_numeral of_nat_power)
    then show ?thesis using B(1) by (simp add: pow2_def)
  qed
  then have b53: "b \<le> 53" by (simp add: pow2_less_iff)
  have lo: "pow2 e \<le> x"
  proof -
    have "pow2 e = pow2 (b - 1) * pow2 (- int k)"
      unfolding e_def using pow2_add [of "b - 1" "- int k"] by simp
    also have "\<dots> \<le> x"
      unfolding xk using B(1) pow2_pos [of "- int k"] by (simp add: mult_right_mono less_imp_le)
    finally show ?thesis .
  qed
  have hi: "x < pow2 (e + 1)"
  proof -
    have "pow2 (e + 1) = pow2 b * pow2 (- int k)"
      unfolding e_def using pow2_add [of b "- int k"] by simp
    moreover have "x < pow2 b * pow2 (- int k)"
      unfolding xk using B(2) pow2_pos [of "- int k"] by (simp add: mult_strict_right_mono)
    ultimately show ?thesis by simp
  qed
  have "x / pow2 (e - 52) = of_int (int n) * pow2 (53 - b)"
  proof -
    have "pow2 (- int k) / pow2 (e - 52) = pow2 (- int k - (e - 52))"
      by (rule pow2_diff [symmetric])
    also have "- int k - (e - 52) = 53 - b" by (simp add: e_def)
    finally have "pow2 (- int k) / pow2 (e - 52) = pow2 (53 - b)" .
    then have "of_int (int n) * (pow2 (- int k) / pow2 (e - 52)) = of_int (int n) * pow2 (53 - b)"
      by (simp only:)
    then show ?thesis by (simp add: xk)
  qed
  also have "pow2 (53 - b) = of_int (2 ^ nat (53 - b))"
    using b53 by (simp add: pow2_def)
  finally have m: "x / pow2 (e - 52) = of_int (int n * 2 ^ nat (53 - b))"
    by simp
  have "fl_pos x = of_int (round_half_even (x / pow2 (e - 52))) * pow2 (e - 52)"
    using lo hi by (rule fl_pos_eq)
  also have "\<dots> = (x / pow2 (e - 52)) * pow2 (e - 52)"
    unfolding m round_half_even_of_int ..
  also have "\<dots> = x"
    using pow2_pos [of "e - 52"] by simp
  finally have "fl_pos x = x" .
  moreover have "0 < x" using assms(1) by (simp add: x_def)
  ultimately show ?thesis by (simp add: fl_def x_def)
qed

lemma scaled_exact:
  assumes "0 < n" and "n < 1024 ^ 5"
  shows "fl (of_nat n / 1024 ^ i) = of_nat n / 1024 ^ i"
proof -
  have "(1024 :: rat) ^ i = 2 ^ (10 * i)"
    by (simp add: power_mult)
  moreover have "n < 2 ^ 53" using assms(2) by simp
  ultimately show ?thesis using fl_dyadic [OF assms(1), of "10 * i"] by simp
qed

lemma formatBytes_in_range:
  assumes "0 < n" and "n < 1024 ^ 5" and "d \<le> 100"
  defines "i \<equiv> nat \<lfloor>ln (real n) / ln 1024\<rfloor>"
  shows "i < 5" and "1024 ^ i \<le> n" and "n < 1024 ^ (i + 1)"
    and "formatBytes n d =
           Inr (js_toString (Num (fl (toFixed_value (of_nat n / 1024 ^ i) (nat d)))) @ '' '' @ sizes ! i)"
proof -
  have i: "i = floorlog 1024 n - 1"
    unfolding i_def using index_log [OF assms(1)] by (metis nat_int)
  show lo: "1024 ^ i \<le> n" and hi: "n < 1024 ^ (i + 1)"
    unfolding i using index_bounds [OF assms(1)] by simp_all
  have "(1024 :: nat) ^ i < 1024 ^ 5" using lo assms(2) by simp
  then show i5: "i < 5"
    by (simp only: power_strict_increasing_iff [of "1024 :: nat"] one_less_numeral_iff semiring_norm)
  show "formatBytes n d =
           Inr (js_toString (Num (fl (toFixed_value (of_nat n / 1024 ^ i) (nat d)))) @ '' '' @ sizes ! i)"
    using formatBytes_unfold [OF lo hi assms(3)] i5 by (simp add: scaled_exact [OF assms(1,2)])
qed

section \<open>Claims about the chunked hasher\<close>

text \<open>
  C1. For every byte sequence and every partition of it into contiguous chunks fed in
  order, the chunked pipeline yields the digest of the whole sequence hashed in one
  chunk. First conjunct: \<^verbatim>\<open>calculateSHA3_256\<close>, which cuts a readable file into chunks of
  \<open>chunkSize\<close> bytes, resolves with the digest of one \<^verbatim>\<open>update\<close> over all the bytes.
  Second conjunct: the same for any list of chunks whatsoever.
\<close>

theorem chunked_digest_is_single_digest:
  assumes "readable f"
  shows "snd (calculateSHA3_256 WithCreate f onProgress ui) = Inr (hex (update create (file_bytes f)))
       \<and> hex (foldl update create chunks) = hex (update create (concat chunks))"
  using assms by (simp add: calculateSHA3_256_readable foldl_update_concat)

text \<open>Witness for C1: a readable file of three chunks, and a partition with an empty chunk.\<close>

theorem chunked_digest_is_single_digest_witness:
  "readable big_file
   \<and> snd (calculateSHA3_256 WithCreate big_file None ()) = Inr (hex (update create (file_bytes big_file)))
   \<and> hex (foldl update create [[0x61], [], [0x62, 0x63]]) = hex (update create (concat [[0x61], [], [0x62, 0x63]]))"
  using chunked_digest_is_single_digest [of big_file None "()" "[[0x61], [], [0x62, 0x63]]"] readable_big_file
  by blast


text \<open>
  C2. For every zero-length file \<^verbatim>\<open>calculateSHA3_256\<close> resolves with the digest of the
  empty input, a7ffc6f8bf1ed76651c14756a061d662f580ff4de43b49fa82d80a4b80f8434a, and the
  only value it reports to \<^verbatim>\<open>onProgress\<close> is 100.
\<close>

theorem empty_file_digest:
  assumes "file_bytes f = []"
  shows "calculateSHA3_256 WithCreate f (Some onProgress) ui =
           (onProgress (Num 100) ui,
            Inr ''a7ffc6f8bf1ed76651c14756a061d662f580ff4de43b49fa82d80a4b80f8434a'')
       \<and> calculateSHA3_256 WithCreate f None ui =
           (ui, Inr ''a7ffc6f8bf1ed76651c14756a061d662f580ff4de43b49fa82d80a4b80f8434a'')
       \<and> progress_trace f = [Num 100]"
  by (simp add: calculateSHA3_256_empty [OF assms] notify_def progress_trace_def)

text \<open>Witness for C2: the empty file.\<close>

theorem empty_file_digest_witness:
  "file_bytes empty_file = []
   \<and> snd (calculateSHA3_256 WithCreate empty_file None ()) =
        Inr ''a7ffc6f8bf1ed76651c14756a061d662f580ff4de43b49fa82d80a4b80f8434a''
   \<and> progress_trace empty_file = [Num 100]"
proof -
  have e: "file_bytes empty_file = []" by (simp add: empty_file_def)
  show ?thesis
    using empty_file_digest [OF e, of "\<lambda>p u. u" "()"] e by simp
qed

text \<open>
  C3 as stated, "for every file the sequence of values passed to onProgress ... has the
  final value exactly 100", fails for a file with a byte that cannot be read: the loop
  stops at the failed read. A file of three bytes whose second byte is unreadable
  reports nothing at all, and a file of three chunks whose third chunk is unreadable
  reports 33 and 67 and never 100.
\<close>

theorem progress_final_value_counterexample:
  "progress_trace damaged_file = []
   \<and> progress_trace torn_file = [Num 33, Num 67]
   \<and> last (progress_trace torn_file) \<noteq> Num 100"
  by (simp add: progress_trace_damaged_file progress_trace_torn_file)

text \<open>
  C3, amended. The values passed to \<^verbatim>\<open>onProgress\<close> are integers between 0 and 100 and
  never decrease, for every file; when every read succeeds there is at least one value
  and the last one is exactly 100; for an empty file the only value is 100.
\<close>

theorem progress_sequence:
  "(\<forall>v \<in> set (progress_trace f). \<exists>n\<le>100. v = Num (of_nat n))
   \<and> sorted_wrt js_le (progress_trace f)
   \<and> (readable f \<longrightarrow> progress_trace f \<noteq> [] \<and> last (progress_trace f) = Num 100)
   \<and> (file_bytes f = [] \<longrightarrow> progress_trace f = [Num 100])"
proof (intro conjI impI ballI)
  obtain k where k: "progress_trace f = take k (reported f)"
    using progress_trace_prefix by blast
  fix v assume "v \<in> set (progress_trace f)"
  then have "v \<in> set (reported f)" unfolding k by (rule in_set_takeD)
  then show "\<exists>n\<le>100. v = Num (of_nat n)" by (rule reported_percentages)
next
  obtain k where k: "progress_trace f = take k (reported f)"
    using progress_trace_prefix by blast
  show "sorted_wrt js_le (progress_trace f)"
    unfolding k by (rule sorted_wrt_take [OF reported_sorted])
next
  assume "readable f"
  then show "progress_trace f \<noteq> []" by (simp add: progress_trace_readable reported_nonempty)
next
  assume "readable f"
  then show "last (progress_trace f) = Num 100" by (simp add: progress_trace_readable reported_last)
next
  assume "file_bytes f = []"
  then show "progress_trace f = [Num 100]"
    by (simp add: progress_trace_def calculateSHA3_256_empty notify_def)
qed

text \<open>Witness for the amended C3: a file of three chunks, reporting 33, 67, 100, and the empty file.\<close>

theorem progress_sequence_witness:
  "readable big_file \<and> progress_trace big_file = [Num 33, Num 67, Num 100]
   \<and> Num 67 \<in> set (progress_trace big_file)
   \<and> (\<exists>n. n \<le> 100 \<and> Num 67 = Num (of_nat n))
   \<and> sorted_wrt js_le (progress_trace big_file)
   \<and> last (progress_trace big_file) = Num 100
   \<and> file_bytes empty_file = [] \<and> progress_trace empty_file = [Num 100]"
proof -
  have e: "file_bytes empty_file = []" by (simp add: empty_file_def)
  have m: "Num 67 \<in> set (progress_trace big_file)" by (simp add: progress_trace_big_file)
  note b = progress_sequence [of big_file]
  note b1 = b [THEN conjunct1, THEN bspec, OF m] and b2 = b [THEN conjunct2, THEN conjunct1]
    and b3 = b [THEN conjunct2, THEN conjunct2, THEN conjunct1, THEN mp, OF readable_big_file]
  note e1 = progress_sequence [of empty_file, THEN conjunct2, THEN conjunct2, THEN conjunct2, THEN mp, OF e]
  have "\<exists>n. n \<le> 100 \<and> Num 67 = Num (of_nat n)" using b1 by blast
  then show ?thesis
    using readable_big_file progress_trace_big_file b2 b3 e e1 m by (intro conjI) simp_all
qed

text \<open>
  C4 as stated, "the progress value equals floor(offset / fileSize * 100) clamped to
  100", fails: after the second chunk of a file of three chunks the loop reports 67,
  where the floor is 66.
\<close>

theorem progress_is_floor_counterexample:
  "readable big_file \<and> file_size big_file = 3 * chunkSize
   \<and> progress_trace big_file ! 1 = Num 67
   \<and> progress_floor_spec (2 * chunkSize) (file_size big_file) = 66
   \<and> progress_trace big_file ! 1 \<noteq> Num (of_int (progress_floor_spec (2 * chunkSize) (file_size big_file)))"
proof -
  have "progress_floor_spec (2 * chunkSize) (3 * chunkSize) = 66"
    by (simp add: progress_floor_spec_def chunkSize_def floor_rat_numeral)
  then show ?thesis
    by (simp add: readable_big_file file_size_big_file progress_trace_big_file)
qed

text \<open>
  C4, amended. After each chunk of a readable, non-empty file the value reported is
  \<^verbatim>\<open>Math.round((offset / file.size) * 100)\<close> clamped to 100: the integer nearest to the
  product computed in doubles, a tie going up, where the offset is the number of chunks
  consumed times the chunk size; one value is reported per chunk.
\<close>

theorem progress_is_rounded:
  assumes "readable f" and "0 < file_size f" and "k < chunk_count (file_size f)"
  shows "length (progress_trace f) = chunk_count (file_size f)
       \<and> progress_trace f ! k =
           Num (of_int (min 100
             \<lfloor>fl (fl (of_nat (Suc k * chunkSize) / of_nat (file_size f)) * 100) + 1 / 2\<rfloor>))"
  using assms
  by (simp add: progress_trace_readable reported_length reported_nth progress_of_percent percent_def)

text \<open>Witness for the amended C4.\<close>

theorem progress_is_rounded_witness:
  "readable big_file \<and> 0 < file_size big_file \<and> 1 < chunk_count (file_size big_file)
   \<and> length (progress_trace big_file) = chunk_count (file_size big_file)
   \<and> progress_trace big_file ! 1 =
        Num (of_int (min 100
          \<lfloor>fl (fl (of_nat (Suc 1 * chunkSize) / of_nat (file_size big_file)) * 100) + 1 / 2\<rfloor>))
   \<and> progress_trace big_file ! 1 = Num 67"
proof -
  have h: "0 < file_size big_file" "1 < chunk_count (file_size big_file)"
    using chunkSize_pos by (simp_all add: file_size_big_file chunk_count_big_file)
  note t = progress_is_rounded [OF readable_big_file h]
  show ?thesis
    using readable_big_file h t progress_trace_big_file by (intro conjI) simp_all
qed

text \<open>
  C5 as stated, "the offset is advanced by exactly the number of bytes read, so that
  after the final chunk the offset equals the file size", fails: for a file of three
  bytes the only read delivers 3 bytes, the offset moves by 1048576, and the loop ends
  with the offset 1048576.
\<close>

theorem offset_equals_bytes_read_counterexample:
  "length (blob_slice small_file 0 (0 + chunkSize)) = 3
   \<and> offset (onload \<lparr>hasher = create, offset = 0\<rparr> (blob_slice small_file 0 (0 + chunkSize))) = 1048576
   \<and> offset (fst (readNextChunk small_file None \<lparr>hasher = create, offset = 0\<rparr> ())) = 1048576
   \<and> file_size small_file = 3
   \<and> offset (fst (readNextChunk small_file None \<lparr>hasher = create, offset = 0\<rparr> ())) \<noteq> file_size small_file"
  by (simp add: readNextChunk_readable [OF readable_small_file] file_size_small_file chunk_count_def
        onload_def blob_slice_def) (simp add: chunkSize_def small_file_def)

text \<open>
  C5, amended. In every iteration the offset is advanced by the fixed \<open>chunkSize\<close>,
  whatever the number of bytes read, which is \<open>min chunkSize (size - offset)\<close> since the
  slice is clamped to the end of the file; for a readable file the loop ends with the
  offset \<open>chunk_count size * chunkSize\<close>, the first multiple of the chunk size (and at
  least one chunk) that reaches the file size.
\<close>

theorem offset_advances_by_chunkSize:
  "offset (onload st result) = offset st + chunkSize
   \<and> length (blob_slice f (offset st) (offset st + chunkSize)) = min chunkSize (file_size f - offset st)
   \<and> (readable f \<longrightarrow>
        offset (fst (readNextChunk f onProgress \<lparr>hasher = create, offset = 0\<rparr> ui))
          = chunk_count (file_size f) * chunkSize
        \<and> file_size f \<le> chunk_count (file_size f) * chunkSize)"
  by (simp add: onload_def blob_slice_def file_size_def readNextChunk_readable chunk_count_covers min.commute)

text \<open>Witness for the amended C5.\<close>

theorem offset_advances_by_chunkSize_witness:
  "readable small_file
   \<and> offset (fst (readNextChunk small_file None \<lparr>hasher = create, offset = 0\<rparr> ()))
        = chunk_count (file_size small_file) * chunkSize
   \<and> file_size small_file \<le> chunk_count (file_size small_file) * chunkSize"
  using offset_advances_by_chunkSize [of "\<lparr>hasher = create, offset = 0\<rparr>" "[]" small_file None "()"]
    readable_small_file
  by blast

text \<open>
  C8. If a byte of the file cannot be read, \<^verbatim>\<open>calculateSHA3_256\<close> rejects with the error
  "Error reading file." and no digest; the reader stops at the failing chunk, which is
  not read again; \<^verbatim>\<open>processFile\<close> surfaces the message, creates no record and resets the
  progress to 0, and a later attempt on a readable file completes with no error
  message left.
\<close>

theorem unreadable_range_rejects:
  assumes "p \<in> set (file_unreadable f)" and "p < file_size f"
  shows "snd (calculateSHA3_256 WithCreate f onProgress ui) = Inl (Error ''Error reading file.'')
       \<and> offset (fst (readNextChunk f onProgress \<lparr>hasher = create, offset = 0\<rparr> ui)) \<le> p
       \<and> (sha3_256 env = WithCreate \<longrightarrow>
            status (processFile env f st) = ERROR
            \<and> errorMsg (processFile env f st) = Some ''Error reading file.''
            \<and> progress (processFile env f st) = Num 0
            \<and> results (processFile env f st) = results st
            \<and> (readable g \<longrightarrow>
                 status (processFile env g (processFile env f st)) = COMPLETED
                 \<and> errorMsg (processFile env g (processFile env f st)) = None
                 \<and> progress (processFile env g (processFile env f st)) = Num 0))"
proof (intro conjI impI)
  show "snd (calculateSHA3_256 WithCreate f onProgress ui) = Inl (Error ''Error reading file.'')"
    by (rule calculateSHA3_256_unreadable [OF assms])
  show "offset (fst (readNextChunk f onProgress \<lparr>hasher = create, offset = 0\<rparr> ui)) \<le> p"
    using readNextChunk_unreadable [OF assms, of "\<lparr>hasher = create, offset = 0\<rparr>" onProgress ui] by simp
next
  assume m: "sha3_256 env = WithCreate"
  have r: "snd (calculateSHA3_256 (sha3_256 env) f (Some setProgress)
             (setProgress (Num 0) (st\<lparr>errorMsg := None, status := PROCESSING\<rparr>))) =
           Inl (Error ''Error reading file.'')"
    unfolding m by (rule calculateSHA3_256_unreadable [OF assms])
  show "status (processFile env f st) = ERROR" by (rule processFile_rejected(2) [OF r])
  show "errorMsg (processFile env f st) = Some ''Error reading file.''"
    using processFile_rejected(3) [OF r] by simp
  show "progress (processFile env f st) = Num 0" by (rule processFile_rejected(4) [OF r])
  show "results (processFile env f st) = results st" by (rule processFile_rejected(1) [OF r])
  assume g: "readable g"
  show "status (processFile env g (processFile env f st)) = COMPLETED"
    by (rule processFile_after_readable(1) [OF g m])
  show "errorMsg (processFile env g (processFile env f st)) = None"
    by (rule processFile_after_readable(2) [OF g m])
  show "progress (processFile env g (processFile env f st)) = Num 0"
    by (rule processFile_after_readable(3) [OF g m])
qed

text \<open>Witness for C8: a file whose second byte is unreadable.\<close>

theorem unreadable_range_rejects_witness:
  "1 \<in> set (file_unreadable damaged_file) \<and> 1 < file_size damaged_file
   \<and> sha3_256 offline = WithCreate \<and> readable small_file
   \<and> snd (calculateSHA3_256 WithCreate damaged_file None ()) = Inl (Error ''Error reading file.'')
   \<and> status (processFile offline damaged_file initial_state) = ERROR
   \<and> errorMsg (processFile offline damaged_file initial_state) = Some ''Error reading file.''
   \<and> progress (processFile offline damaged_file initial_state) = Num 0
   \<and> results (processFile offline damaged_file initial_state) = results initial_state
   \<and> status (processFile offline small_file (processFile offline damaged_file initial_state)) = COMPLETED"
  using unreadable_range_rejects [OF damaged_file_unreadable, of None "()" offline initial_state small_file]
    damaged_file_unreadable offline_fields(1) readable_small_file
  by simp


text \<open>
  C10. The way the promise of \<^verbatim>\<open>calculateSHA3_256\<close> settles, and so the digest, is the
  same with a progress callback, any callback and any state of the caller, and without.
\<close>

theorem digest_independent_of_observer:
  "snd (calculateSHA3_256 sha3 f (Some onProgress) ui) = snd (calculateSHA3_256 sha3 f None ui')"
  by (rule calculateSHA3_256_observer)


section \<open>Claims about the summarizer and the history\<close>

text \<open>
  C6. \<^verbatim>\<open>analyzeFileMetadata\<close> always returns a string; when the call to the service
  throws, it is the one fixed string "Could not perform AI analysis at this time.";
  and when the service throws while a readable file is processed, a record is still
  created, with that string as its summary, and the operation completes.
\<close>

theorem summarizer_failure_absorbed:
  "(\<exists>summary. analyzeFileMetadata ai fileName fileSize fileType hash = Inr summary)
   \<and> (ai fileName fileSize fileType hash = Throws e \<longrightarrow>
        analyzeFileMetadata ai fileName fileSize fileType hash =
          Inr ''Could not perform AI analysis at this time.'')
   \<and> (readable f \<and> sha3_256 env = WithCreate \<and> (\<forall>a b c d. \<exists>e. genai env a b c d = Throws e) \<longrightarrow>
        (\<exists>r. results (processFile env f st) = r # results st
             \<and> r_aiAnalysis r = Some ''Could not perform AI analysis at this time.''
             \<and> r_hash r = hex (update create (file_bytes f)))
        \<and> status (processFile env f st) = COMPLETED)"
proof (intro conjI impI)
  show "\<exists>summary. analyzeFileMetadata ai fileName fileSize fileType hash = Inr summary"
    by (rule analyzeFileMetadata_returns)
next
  assume "ai fileName fileSize fileType hash = Throws e"
  then show "analyzeFileMetadata ai fileName fileSize fileType hash =
          Inr ''Could not perform AI analysis at this time.''"
    by (rule analyzeFileMetadata_throws)
next
  assume a: "readable f \<and> sha3_256 env = WithCreate \<and> (\<forall>a b c d. \<exists>e. genai env a b c d = Throws e)"
  then have m: "sha3_256 env = WithCreate" and rd: "readable f"
    and th: "\<And>a b c d. \<exists>e. genai env a b c d = Throws e" by simp_all
  have h: "snd (calculateSHA3_256 (sha3_256 env) f (Some setProgress)
             (setProgress (Num 0) (st\<lparr>errorMsg := None, status := PROCESSING\<rparr>))) =
          Inr (hex (update create (file_bytes f)))"
    unfolding m using rd by (rule calculateSHA3_256_readable)
  from processFile_resolved(1) [OF h] obtain fileSize a where
    an: "analyzeFileMetadata (genai env) (file_name f) fileSize (unknown_type (file_type f))
          (hex (update create (file_bytes f))) = Inr a"
    and res: "results (processFile env f st) =
           \<lparr>r_id = random_id env, r_name = file_name f, r_size = file_size f,
            r_type = unknown_type (file_type f), r_lastModified = file_lastModified f,
            r_hash = hex (update create (file_bytes f)), r_timestamp = now env, r_aiAnalysis = Some a\<rparr> # results st"
    by auto
  obtain e where "genai env (file_name f) fileSize (unknown_type (file_type f))
          (hex (update create (file_bytes f))) = Throws e"
    using th by blast
  from analyzeFileMetadata_throws [of "genai env" "file_name f" fileSize "unknown_type (file_type f)"
      "hex (update create (file_bytes f))" e, OF this] an
  have "a = ''Could not perform AI analysis at this time.''" by simp
  with res show "\<exists>r. results (processFile env f st) = r # results st
             \<and> r_aiAnalysis r = Some ''Could not perform AI analysis at this time.''
             \<and> r_hash r = hex (update create (file_bytes f))"
    by simp
  show "status (processFile env f st) = COMPLETED" by (rule processFile_resolved(2) [OF h])
qed

text \<open>Witness for C6: a service that always throws.\<close>

theorem summarizer_failure_absorbed_witness:
  "(\<lambda>a b c d. Throws (Error ''quota'')) ''note.txt'' ''3 Bytes'' ''text/plain'' ''00'' = Throws (Error ''quota'')
   \<and> analyzeFileMetadata (\<lambda>a b c d. Throws (Error ''quota'')) ''note.txt'' ''3 Bytes'' ''text/plain'' ''00''
       = Inr ''Could not perform AI analysis at this time.''
   \<and> readable small_file \<and> sha3_256 offline = WithCreate
   \<and> (\<forall>a b c d. \<exists>e. genai offline a b c d = Throws e)
   \<and> (\<exists>r. results (processFile offline small_file initial_state) = r # results initial_state
             \<and> r_aiAnalysis r = Some ''Could not perform AI analysis at this time.''
             \<and> r_hash r = hex (update create (file_bytes small_file)))
   \<and> status (processFile offline small_file initial_state) = COMPLETED"
proof -
  have s: "readable small_file \<and> sha3_256 offline = WithCreate
           \<and> (\<forall>a b c d. \<exists>e. genai offline a b c d = Throws e)"
    using readable_small_file offline_fields by simp
  note t = summarizer_failure_absorbed [of "\<lambda>a b c d. Throws (Error ''quota'')" "''note.txt''" "''3 Bytes''"
      "''text/plain''" "''00''" "Error ''quota''" small_file offline initial_state]
  note a = t [THEN conjunct2, THEN conjunct1, THEN mp, OF refl]
  note b = t [THEN conjunct2, THEN conjunct2, THEN mp, OF s]
  show ?thesis using a b s by (intro conjI) simp_all
qed

text \<open>
  C9 as stated, "whether it completes or fails, exactly one Result record is created",
  fails: processing a file with an unreadable byte from the initial state leaves the
  history empty.
\<close>

theorem one_record_per_operation_counterexample:
  "results (processFile offline damaged_file initial_state) = []"
proof -
  have "snd (calculateSHA3_256 (sha3_256 offline) damaged_file (Some setProgress)
               (setProgress (Num 0) (initial_state\<lparr>errorMsg := None, status := PROCESSING\<rparr>))) =
             Inl (Error ''Error reading file.'')"
    unfolding offline_fields by (rule calculateSHA3_256_unreadable [OF damaged_file_unreadable])
  from processFile_rejected(1) [OF this] show ?thesis
    by (simp add: initial_state_def)
qed


text \<open>
  C9, amended. An operation that completes creates exactly one record and puts it at
  the head of the history, the older records following unchanged; an operation that
  fails, on an unreadable byte or a missing hash module, creates none and leaves the
  history as it was; \<^verbatim>\<open>clearAll\<close> empties the history.
\<close>

theorem history_records:
  "(readable f \<and> sha3_256 env = WithCreate \<longrightarrow>
      (\<exists>r. results (processFile env f st) = r # results st
           \<and> r_hash r = hex (update create (file_bytes f))
           \<and> r_name r = file_name f \<and> r_size r = file_size f
           \<and> r_id r = random_id env \<and> r_timestamp r = now env))
   \<and> (\<not> readable f \<or> sha3_256 env \<noteq> WithCreate \<longrightarrow>
        results (processFile env f st) = results st)
   \<and> results (clearAll st) = []"
proof (intro conjI impI)
  assume "readable f \<and> sha3_256 env = WithCreate"
  then have "readable f" and "sha3_256 env = WithCreate" by simp_all
  then show "\<exists>r. results (processFile env f st) = r # results st
           \<and> r_hash r = hex (update create (file_bytes f))
           \<and> r_name r = file_name f \<and> r_size r = file_size f
           \<and> r_id r = random_id env \<and> r_timestamp r = now env"
    by (rule processFile_readable)
next
  assume a: "\<not> readable f \<or> sha3_256 env \<noteq> WithCreate"
  show "results (processFile env f st) = results st"
  proof (cases "sha3_256 env = WithCreate")
    case True
    with a have "\<not> readable f" by simp
    then show ?thesis using True by (rule processFile_not_readable)
  next
    case False
    then show ?thesis by (rule processFile_no_module)
  qed
next
  show "results (clearAll st) = []" by (simp add: clearAll_def)
qed

text \<open>Witness for the amended C9.\<close>

theorem history_records_witness:
  "readable small_file \<and> sha3_256 offline = WithCreate \<and> \<not> readable damaged_file
   \<and> (\<exists>r. results (processFile offline small_file initial_state) = r # results initial_state
           \<and> r_hash r = hex (update create (file_bytes small_file))
           \<and> r_name r = file_name small_file \<and> r_size r = file_size small_file
           \<and> r_id r = random_id offline \<and> r_timestamp r = now offline)
   \<and> results (processFile offline damaged_file initial_state) = results initial_state"
proof -
  have d: "\<not> readable damaged_file"
    using damaged_file_unreadable not_readable_iff by blast
  have s: "readable small_file \<and> sha3_256 offline = WithCreate"
    using readable_small_file offline_fields(1) by simp
  note a = history_records [of small_file offline initial_state, THEN conjunct1, THEN mp, OF s]
  have "\<not> readable damaged_file \<or> sha3_256 offline \<noteq> WithCreate"
    using d by simp
  note b = history_records [of damaged_file offline initial_state, THEN conjunct2, THEN conjunct1, THEN mp, OF this]
  show ?thesis
    using d s a b by (intro conjI) simp_all
qed

section \<open>Claims about the size formatter\<close>




end
